theory Spec2Isabelle
  imports Main "HOL-Library.Multiset" "HOL-Library.Sublist"
begin

section \<open>Values exchanged with the model service\<close>

text \<open>
  A Go \<^verbatim>\<open>error\<close> value is known to the agent only through its message
  (\<^verbatim>\<open>err.Error()\<close>).
\<close>

datatype error = errorString (Error: string)

text \<open>
  The response of the model service is a list of content blocks. The client library stores
  every block in one flat struct; \<^verbatim>\<open>AsAny\<close> selects the variant from the
  \<^verbatim>\<open>Type\<close> field. Only the fields that the agent reads are kept. A field that
  the variant does not carry is the empty string.
\<close>

datatype ContentBlockUnion =
  ContentBlockUnion (Type: string) (Text: string) (ID: string) (BlockName: string) (Input: string)

datatype anyContentBlock =
    TextBlock string
  | ToolUseBlock string string string
  | OtherBlock

definition AsAny :: "ContentBlockUnion \<Rightarrow> anyContentBlock" where
  "AsAny b =
     (if Type b = ''text'' then TextBlock (Text b)
      else if Type b = ''tool_use'' then ToolUseBlock (ID b) (BlockName b) (Input b)
      else OtherBlock)"

datatype Message = Message (Content: "ContentBlockUnion list")

text \<open>The blocks of the turns that the agent sends to the model service.\<close>

datatype ContentBlockParamUnion =
    TextBlockParam string
  | ToolUseBlockParam string string string
  | ToolResultBlockParam (ToolUseID: string) (ResultContent: string) (IsError: bool)
  | OtherBlockParam

datatype MessageParamRole = MessageParamRoleUser | MessageParamRoleAssistant

datatype MessageParam =
  MessageParam (Role: MessageParamRole) (ParamContent: "ContentBlockParamUnion list")

definition NewTextBlock :: "string \<Rightarrow> ContentBlockParamUnion" where
  "NewTextBlock text = TextBlockParam text"

definition NewToolResultBlock :: "string \<Rightarrow> string \<Rightarrow> bool \<Rightarrow> ContentBlockParamUnion" where
  "NewToolResultBlock toolUseID content isError = ToolResultBlockParam toolUseID content isError"

definition NewUserMessage :: "ContentBlockParamUnion list \<Rightarrow> MessageParam" where
  "NewUserMessage blocks = MessageParam MessageParamRoleUser blocks"

definition BlockToParam :: "ContentBlockUnion \<Rightarrow> ContentBlockParamUnion" where
  "BlockToParam b =
     (case AsAny b of
        TextBlock t \<Rightarrow> TextBlockParam t
      | ToolUseBlock i n inp \<Rightarrow> ToolUseBlockParam i n inp
      | OtherBlock \<Rightarrow> OtherBlockParam)"

definition ToParam :: "Message \<Rightarrow> MessageParam" where
  "ToParam response = MessageParam MessageParamRoleAssistant (map BlockToParam (Content response))"

datatype ToolParam = ToolParam string string string

section \<open>The agent and its surroundings\<close>

text \<open>
  Everything outside the agent (the file system the tools work on, the model service, the
  peers on the network) is a state of type \<open>'w\<close> that each call to the outside reads and
  may change. Next to it the calls made so far and the turns appended to the transcript
  are recorded, in the order in which the program makes them; the call of a tool's
  function is recorded with what it returned.
\<close>

datatype event =
    ReadInputCall
  | InferCall "MessageParam list" "ToolParam list"
  | ExecuteToolCall string string string
  | FunctionCall string string "error + string"
  | WriteOutputCall string
  | Appended MessageParam

record 'w sys =
  ext :: 'w
  calls :: "event list"

definition logCall :: "event \<Rightarrow> 'w sys \<Rightarrow> 'w sys" where
  "logCall e s = s\<lparr>calls := calls s @ [e]\<rparr>"

record 'w ToolDefinition =
  Name :: string
  Description :: string
  InputSchema :: string
  Function :: "string \<Rightarrow> 'w \<Rightarrow> (error + string) \<times> 'w"

text \<open>
  The transport operations may wait for a channel; \<open>None\<close> is a call that cannot proceed
  in the given state.
\<close>

record 'w Agent =
  name :: string
  port :: int
  client :: "MessageParam list \<Rightarrow> ToolParam list \<Rightarrow> 'w \<Rightarrow> (error + Message) \<times> 'w"
  readInput :: "'w \<Rightarrow> ((error + string) \<times> 'w) option"
  writeOutput :: "string \<Rightarrow> 'w \<Rightarrow> (error option \<times> 'w) option"
  tools :: "'w ToolDefinition list"

section \<open>ExecuteTool\<close>

text \<open>The search loop of ExecuteTool: the first tool of the list with the given name.\<close>

fun findTool :: "string \<Rightarrow> 'w ToolDefinition list \<Rightarrow> 'w ToolDefinition option" where
  "findTool toolName [] = None"
| "findTool toolName (tool # rest) =
     (if Name tool = toolName then Some tool else findTool toolName rest)"

definition ExecuteTool ::
  "'w Agent \<Rightarrow> string \<Rightarrow> string \<Rightarrow> string \<Rightarrow> 'w sys \<Rightarrow> ContentBlockParamUnion \<times> 'w sys" where
  "ExecuteTool a toolID toolName toolInput s0 =
     (let s = logCall (ExecuteToolCall toolID toolName toolInput) s0 in
      case findTool toolName (tools a) of
        None \<Rightarrow> (NewToolResultBlock toolID ''Tool not found'' True, s)
      | Some toolDef \<Rightarrow>
          (case Function toolDef toolInput (ext s) of
             (Inl err, w) \<Rightarrow>
               (NewToolResultBlock toolID (Error err) True,
                (logCall (FunctionCall toolName toolInput (Inl err)) s)\<lparr>ext := w\<rparr>)
           | (Inr result, w) \<Rightarrow>
               (NewToolResultBlock toolID result False,
                (logCall (FunctionCall toolName toolInput (Inr result)) s)\<lparr>ext := w\<rparr>)))"

section \<open>Run\<close>

subsection \<open>Fan-out and fan-in of the tool calls of one response\<close>

text \<open>
  The loop over \<^verbatim>\<open>response.Content\<close> counts the tool-use blocks and starts one
  goroutine for each of them; the goroutine holds the identifier, the name and the input
  of its block.
\<close>

type_synonym goroutine = "string \<times> string \<times> string"

fun spawn :: "ContentBlockUnion list \<Rightarrow> nat \<times> goroutine list \<Rightarrow> nat \<times> goroutine list" where
  "spawn [] (toolCount, started) = (toolCount, started)"
| "spawn (content # rest) (toolCount, started) =
     (case AsAny content of
        TextBlock t \<Rightarrow> spawn rest (toolCount, started)
      | ToolUseBlock toolID toolName toolInput \<Rightarrow>
          spawn rest (Suc toolCount, started @ [(toolID, toolName, toolInput)])
      | OtherBlock \<Rightarrow> spawn rest (toolCount, started))"

text \<open>
  The goroutines run concurrently. Which of them runs its tool next, and which of the
  finished ones hands its result over next, is decided by the Go scheduler, here two
  choice functions of the surroundings and of the number of candidates. A call of
  ExecuteTool is taken as one step. The channel \<^verbatim>\<open>ch\<close> has no buffer, so a
  goroutine that has its result waits until the loop takes it.
\<close>

record 'w Sched =
  runNext :: "'w \<Rightarrow> nat \<Rightarrow> nat"
  sendNext :: "'w \<Rightarrow> nat \<Rightarrow> nat"

definition without :: "nat \<Rightarrow> 'a list \<Rightarrow> 'a list" where
  "without i xs = take i xs @ drop (Suc i) xs"

function runGoroutines ::
  "'w Agent \<Rightarrow> ('w \<Rightarrow> nat \<Rightarrow> nat) \<Rightarrow> goroutine list \<Rightarrow> 'w sys \<Rightarrow> ContentBlockParamUnion list \<times> 'w sys" where
  "runGoroutines a next started s =
     (if started = [] then ([], s)
      else
        (let i = next (ext s) (length started) mod length started in
         case started ! i of (toolID, toolName, toolInput) \<Rightarrow>
           (case ExecuteTool a toolID toolName toolInput s of (toolResult, s') \<Rightarrow>
              (case runGoroutines a next (without i started) s' of (later, s'') \<Rightarrow>
                 (toolResult # later, s'')))))"
  by pat_completeness auto
termination
  apply (relation "measure (\<lambda>(a, next, started, s). length started)")
   apply simp
  subgoal premises nonempty for a nxt started s
  proof -
    have "nxt (ext s) (length started) mod length started < length started"
      using nonempty(1) by simp
    then show ?thesis
      using nonempty(2) by (simp add: without_def)
  qed
  done

declare runGoroutines.simps [simp del]

text \<open>
  The receiving loop takes \<^verbatim>\<open>toolCount\<close> values from the channel. A receive
  with no goroutine left to send would wait forever: \<open>None\<close>.
\<close>

fun receive ::
  "nat \<Rightarrow> (nat \<Rightarrow> nat) \<Rightarrow> ContentBlockParamUnion list \<Rightarrow> ContentBlockParamUnion list
     \<Rightarrow> ContentBlockParamUnion list option" where
  "receive 0 next waiting toolResults = Some toolResults"
| "receive (Suc n) next waiting toolResults =
     (if waiting = [] then None
      else
        (let i = next (length waiting) mod length waiting in
         receive n next (without i waiting) (toolResults @ [waiting ! i])))"

subsection \<open>One iteration of the loop\<close>

record 'w loop =
  takeInput :: bool
  messages :: "MessageParam list"
  world :: "'w sys"

datatype 'w outcome =
    Continue "'w loop"
  | Return string error "'w sys"
  | Panic "'w sys"
  | Blocked "'w sys"

definition Infer ::
  "'w Agent \<Rightarrow> MessageParam list \<Rightarrow> ToolParam list \<Rightarrow> 'w sys \<Rightarrow> (error + Message) \<times> 'w sys" where
  "Infer a msgs anthropicTools s =
     (case client a msgs anthropicTools (ext s) of
        (Inl err, w) \<Rightarrow> (Inl err, (logCall (InferCall msgs anthropicTools) s)\<lparr>ext := w\<rparr>)
      | (Inr response, w) \<Rightarrow> (Inr response, (logCall (InferCall msgs anthropicTools) s)\<lparr>ext := w\<rparr>))"

text \<open>The first statement of the loop body: \<^verbatim>\<open>if takeInput { ... }\<close>.\<close>

definition readTurn :: "'w Agent \<Rightarrow> 'w loop \<Rightarrow> 'w outcome" where
  "readTurn a st =
     (if takeInput st then
        (case readInput a (ext (world st)) of
           None \<Rightarrow> Blocked (logCall ReadInputCall (world st))
         | Some (Inl err, w) \<Rightarrow> Return [] err ((logCall ReadInputCall (world st))\<lparr>ext := w\<rparr>)
         | Some (Inr input, w) \<Rightarrow>
             Continue (st\<lparr>messages := messages st @ [NewUserMessage [NewTextBlock input]],
                         world := logCall (Appended (NewUserMessage [NewTextBlock input]))
                                    ((logCall ReadInputCall (world st))\<lparr>ext := w\<rparr>)\<rparr>))
      else Continue st)"

text \<open>The last statement of the loop body: \<^verbatim>\<open>if len(toolResults) == 0 { ... } else { ... }\<close>.\<close>

definition emitOrFeed ::
  "'w Agent \<Rightarrow> Message \<Rightarrow> ContentBlockParamUnion list \<Rightarrow> 'w loop \<Rightarrow> 'w outcome" where
  "emitOrFeed a response toolResults st =
     (if length toolResults = 0 then
        (case Content response of
           [] \<Rightarrow> Panic (world st)
         | first # others \<Rightarrow>
             (case writeOutput a (Text first) (ext (world st)) of
                None \<Rightarrow> Blocked (logCall (WriteOutputCall (Text first)) (world st))
              | Some (err, w) \<Rightarrow>
                  Continue (st\<lparr>takeInput := True,
                              world := (logCall (WriteOutputCall (Text first)) (world st))\<lparr>ext := w\<rparr>\<rparr>)))
      else
        Continue (st\<lparr>takeInput := False,
                    messages := messages st @ [NewUserMessage toolResults],
                    world := logCall (Appended (NewUserMessage toolResults)) (world st)\<rparr>))"

definition iteration :: "'w Agent \<Rightarrow> 'w Sched \<Rightarrow> ToolParam list \<Rightarrow> 'w loop \<Rightarrow> 'w outcome" where
  "iteration a sch anthropicTools st =
     (case readTurn a st of
        Continue st1 \<Rightarrow>
          (case Infer a (messages st1) anthropicTools (world st1) of
             (Inl err, s) \<Rightarrow> Return [] err s
           | (Inr response, s) \<Rightarrow>
               (case spawn (Content response) (0, []) of (toolCount, started) \<Rightarrow>
                  (case runGoroutines a (runNext sch) started
                          (logCall (Appended (ToParam response)) s) of (waiting, s') \<Rightarrow>
                     (case receive toolCount (sendNext sch (ext s')) waiting [] of
                        None \<Rightarrow> Blocked s'
                      | Some toolResults \<Rightarrow>
                          emitOrFeed a response toolResults
                            (st1\<lparr>messages := messages st1 @ [ToParam response], world := s'\<rparr>)))))
      | stopped \<Rightarrow> stopped)"

subsection \<open>The loop\<close>

text \<open>
  The loop has no exit of its own. \<open>RunLoop n\<close> runs at most \<open>n\<close> iterations; \<open>None\<close>
  says that the loop is still running after them.
\<close>

fun RunLoop :: "nat \<Rightarrow> 'w Agent \<Rightarrow> 'w Sched \<Rightarrow> ToolParam list \<Rightarrow> 'w loop \<Rightarrow> 'w outcome option" where
  "RunLoop 0 a sch anthropicTools st = None"
| "RunLoop (Suc n) a sch anthropicTools st =
     (case iteration a sch anthropicTools st of
        Continue st' \<Rightarrow> RunLoop n a sch anthropicTools st'
      | stopped \<Rightarrow> Some stopped)"

text \<open>The state of the loop after \<open>n\<close> iterations, if the loop gets that far.\<close>

fun iterations :: "nat \<Rightarrow> 'w Agent \<Rightarrow> 'w Sched \<Rightarrow> ToolParam list \<Rightarrow> 'w loop \<Rightarrow> 'w loop option" where
  "iterations 0 a sch anthropicTools st = Some st"
| "iterations (Suc n) a sch anthropicTools st =
     (case iteration a sch anthropicTools st of
        Continue st' \<Rightarrow> iterations n a sch anthropicTools st'
      | stopped \<Rightarrow> None)"

definition toolParams :: "'w ToolDefinition list \<Rightarrow> ToolParam list" where
  "toolParams ts = map (\<lambda>tool. ToolParam (Name tool) (Description tool) (InputSchema tool)) ts"

definition start :: "'w \<Rightarrow> 'w loop" where
  "start w = \<lparr>takeInput = True, messages = [], world = \<lparr>ext = w, calls = []\<rparr>\<rparr>"

definition Run :: "nat \<Rightarrow> 'w Agent \<Rightarrow> 'w Sched \<Rightarrow> 'w \<Rightarrow> 'w outcome option" where
  "Run n a sch w = RunLoop n a sch (toolParams (tools a)) (start w)"

section \<open>The network transport\<close>

text \<open>
  A buffered Go channel: the values sent and not yet received, oldest first, and the
  capacity given to \<^verbatim>\<open>make\<close>. A send to a full channel and a receive from an
  empty one wait: \<open>None\<close>.
\<close>

record 'a chan =
  buf :: "'a list"
  cap :: nat

definition makeChan :: "nat \<Rightarrow> 'a chan" where
  "makeChan n = \<lparr>buf = [], cap = n\<rparr>"

definition send :: "'a \<Rightarrow> 'a chan \<Rightarrow> 'a chan option" where
  "send x c = (if length (buf c) < cap c then Some (c\<lparr>buf := buf c @ [x]\<rparr>) else None)"

definition recv :: "'a chan \<Rightarrow> ('a \<times> 'a chan) option" where
  "recv c = (case buf c of [] \<Rightarrow> None | x # rest \<Rightarrow> Some (x, c\<lparr>buf := rest\<rparr>))"

text \<open>
  An inbound request, with what reading its body to the end gives, and the response
  writer of the HTTP server: the header fields set, the status line written, the body
  written, and the error with which the connection refuses a write, if it does.
\<close>

datatype Request = Request (Method: string) (Body: "error + string")

record ResponseWriter =
  Header :: "(string \<times> string) list"
  Status :: "nat option"
  Written :: string
  WriteErr :: "error option"

definition HeaderSet :: "string \<Rightarrow> string \<Rightarrow> ResponseWriter \<Rightarrow> ResponseWriter" where
  "HeaderSet k v w = w\<lparr>Header := (k, v) # filter (\<lambda>kv. fst kv \<noteq> k) (Header w)\<rparr>"

definition WriteHeader :: "nat \<Rightarrow> ResponseWriter \<Rightarrow> ResponseWriter" where
  "WriteHeader statusCode w = (if Status w = None then w\<lparr>Status := Some statusCode\<rparr> else w)"

definition Write :: "string \<Rightarrow> ResponseWriter \<Rightarrow> error option \<times> ResponseWriter" where
  "Write bytes w =
     (case WriteErr w of
        Some err \<Rightarrow> (Some err, w)
      | None \<Rightarrow> (None, (WriteHeader 200 w)\<lparr>Written := Written w @ bytes\<rparr>))"

definition StatusOK :: nat where
  "StatusOK = 200"

text \<open>
  The three channels of an agent and the response writers of the server, by handle. The
  writers are shared between the handler that owns them and the agent that writes to them.
\<close>

record Net =
  requestChan :: "Request chan"
  responseChan :: "nat chan"
  doneChan :: "bool chan"
  writers :: "nat \<Rightarrow> ResponseWriter"

definition Errorf :: "string \<Rightarrow> error \<Rightarrow> error" where
  "Errorf text err = errorString (text @ Error err)"

definition readFromNetwork :: "'x Net_scheme \<Rightarrow> ((error + string) \<times> 'x Net_scheme) option" where
  "readFromNetwork net =
     (case recv (requestChan net) of
        None \<Rightarrow> None
      | Some (req, c) \<Rightarrow>
          (case Body req of
             Inl err \<Rightarrow> Some (Inl (Errorf ''failed to read request body: '' err), net\<lparr>requestChan := c\<rparr>)
           | Inr body \<Rightarrow> Some (Inr body, net\<lparr>requestChan := c\<rparr>)))"

definition writeToNetwork :: "string \<Rightarrow> 'x Net_scheme \<Rightarrow> (error option \<times> 'x Net_scheme) option" where
  "writeToNetwork message net =
     (case recv (responseChan net) of
        None \<Rightarrow> None
      | Some (w, c) \<Rightarrow>
          (case Write message (WriteHeader StatusOK (HeaderSet ''Content-Type'' ''text/plain'' (writers net w))) of
             (err, written) \<Rightarrow>
               (case send True (doneChan net) of
                  None \<Rightarrow> None
                | Some d \<Rightarrow>
                    Some (err, net\<lparr>responseChan := c, doneChan := d,
                                   writers := (writers net)(w := written)\<rparr>))))"

text \<open>
  NewAgent makes the three channels. The tool list and the console transport of the
  coder agent are parameters.
\<close>

definition NewAgent ::
  "(MessageParam list \<Rightarrow> ToolParam list \<Rightarrow> 'x Net_scheme \<Rightarrow> (error + Message) \<times> 'x Net_scheme)
     \<Rightarrow> 'x Net_scheme ToolDefinition list
     \<Rightarrow> ('x Net_scheme \<Rightarrow> ((error + string) \<times> 'x Net_scheme) option)
     \<Rightarrow> (string \<Rightarrow> 'x Net_scheme \<Rightarrow> (error option \<times> 'x Net_scheme) option)
     \<Rightarrow> string \<Rightarrow> int \<Rightarrow> 'x Net_scheme \<Rightarrow> 'x Net_scheme Agent \<times> 'x Net_scheme" where
  "NewAgent cl tls rd wr nm prt net =
     (\<lparr>name = nm, port = prt, client = cl, readInput = rd, writeOutput = wr, tools = tls\<rparr>,
      net\<lparr>requestChan := makeChan 1, responseChan := makeChan 1, doneChan := makeChan 1\<rparr>)"

definition NewCoderAgent ::
  "(MessageParam list \<Rightarrow> ToolParam list \<Rightarrow> 'x Net_scheme \<Rightarrow> (error + Message) \<times> 'x Net_scheme)
     \<Rightarrow> 'x Net_scheme ToolDefinition list
     \<Rightarrow> ('x Net_scheme \<Rightarrow> ((error + string) \<times> 'x Net_scheme) option)
     \<Rightarrow> (string \<Rightarrow> 'x Net_scheme \<Rightarrow> (error option \<times> 'x Net_scheme) option)
     \<Rightarrow> 'x Net_scheme \<Rightarrow> 'x Net_scheme Agent \<times> 'x Net_scheme" where
  "NewCoderAgent cl CoderTools readFromCli writeToCli net =
     (case NewAgent cl CoderTools readFromCli writeToCli ''coder'' 8080 net of
        (agent, net') \<Rightarrow>
          (agent\<lparr>readInput := readFromNetwork, writeOutput := writeToNetwork\<rparr>, net'))"

section \<open>Notions used in the statements\<close>

text \<open>
  The tool-invocation requests of a model turn are its tool-use blocks, in the order of
  the turn, each with its identifier, tool name and input.
\<close>

definition requests :: "Message \<Rightarrow> goroutine list" where
  "requests response =
     concat (map (\<lambda>b. case AsAny b of
                         TextBlock t \<Rightarrow> []
                       | ToolUseBlock toolID toolName toolInput \<Rightarrow> [(toolID, toolName, toolInput)]
                       | OtherBlock \<Rightarrow> [])
       (Content response))"

text \<open>The recorded steps that belong to the execution of tools.\<close>

fun isToolCall :: "event \<Rightarrow> bool" where
  "isToolCall (ExecuteToolCall toolID toolName toolInput) = True"
| "isToolCall (FunctionCall toolName toolInput r) = True"
| "isToolCall e = False"

fun isToolResult :: "ContentBlockParamUnion \<Rightarrow> bool" where
  "isToolResult (ToolResultBlockParam toolID content isError) = True"
| "isToolResult b = False"

text \<open>The turns that a stretch of the record appends to the transcript.\<close>

fun appendedTurns :: "event list \<Rightarrow> MessageParam list" where
  "appendedTurns [] = []"
| "appendedTurns (Appended m # es) = m # appendedTurns es"
| "appendedTurns (e # es) = appendedTurns es"

text \<open>The surroundings in which an iteration ends, and the steps it has added to the record.\<close>

fun sysOf :: "'w outcome \<Rightarrow> 'w sys" where
  "sysOf (Continue st) = world st"
| "sysOf (Return out err s) = s"
| "sysOf (Panic s) = s"
| "sysOf (Blocked s) = s"

definition newCalls :: "'w loop \<Rightarrow> 'w outcome \<Rightarrow> event list" where
  "newCalls st out = drop (length (calls (world st))) (calls (sysOf out))"

section \<open>A small agent for running the definitions\<close>

text \<open>
  Two tools over a counter of tool runs, a model that first asks for both tools and then
  answers in two text segments, and a console that always has a line to read.
\<close>

definition listFiles :: "nat ToolDefinition" where
  "listFiles =
     \<lparr>Name = ''list_files'', Description = ''List files'', InputSchema = ''{}'',
      Function = (\<lambda>input w. (Inr ''go.mod main.go'', Suc w))\<rparr>"

definition readFile :: "nat ToolDefinition" where
  "readFile =
     \<lparr>Name = ''read_file'', Description = ''Read a file'', InputSchema = ''{}'',
      Function = (\<lambda>input w. if input = ''go.mod'' then (Inr ''module agent'', Suc w)
                              else (Inl (errorString ''no such file''), Suc w))\<rparr>"

definition toolUse :: "string \<Rightarrow> string \<Rightarrow> string \<Rightarrow> ContentBlockUnion" where
  "toolUse toolID toolName toolInput = ContentBlockUnion ''tool_use'' [] toolID toolName toolInput"

definition textSegment :: "string \<Rightarrow> ContentBlockUnion" where
  "textSegment t = ContentBlockUnion ''text'' t [] [] []"

definition askBoth :: Message where
  "askBoth =
     Message [textSegment ''Looking.'', toolUse ''t1'' ''list_files'' ''.'',
              toolUse ''t2'' ''read_file'' ''notes.txt'']"

definition answer :: Message where
  "answer = Message [textSegment ''Done.'', textSegment ''Bye.'']"

definition exampleAgent :: "nat Agent" where
  "exampleAgent =
     \<lparr>name = ''coder'', port = 8080,
      client = (\<lambda>msgs anthropicTools w. if length msgs = 1 then (Inr askBoth, w) else (Inr answer, w)),
      readInput = (\<lambda>w. Some (Inr ''list files in .'', w)),
      writeOutput = (\<lambda>text w. Some (None, w)),
      tools = [listFiles, readFile]\<rparr>"

definition exampleSched :: "nat Sched" where
  "exampleSched = \<lparr>runNext = (\<lambda>w n. 1), sendNext = (\<lambda>w n. 0)\<rparr>"

text \<open>
  The loop after it has read the first line, after its first iteration (the tool results
  are fed back) and after its second (the answer is written).
\<close>

definition firstTurn :: "nat loop" where
  "firstTurn =
     \<lparr>takeInput = True, messages = [NewUserMessage [NewTextBlock ''list files in .'']],
      world = \<lparr>ext = 0,
               calls = [ReadInputCall,
                        Appended (NewUserMessage [NewTextBlock ''list files in .''])]\<rparr>\<rparr>"

definition afterTools :: "nat loop" where
  "afterTools =
     \<lparr>takeInput = False,
      messages = [NewUserMessage [NewTextBlock ''list files in .''], ToParam askBoth,
                  NewUserMessage [ToolResultBlockParam ''t2'' ''no such file'' True,
                                  ToolResultBlockParam ''t1'' ''go.mod main.go'' False]],
      world = \<lparr>ext = 2,
               calls = [ReadInputCall,
                        Appended (NewUserMessage [NewTextBlock ''list files in .'']),
                        InferCall [NewUserMessage [NewTextBlock ''list files in .'']]
                          [ToolParam ''list_files'' ''List files'' ''{}'',
                           ToolParam ''read_file'' ''Read a file'' ''{}''],
                        Appended (ToParam askBoth),
                        ExecuteToolCall ''t2'' ''read_file'' ''notes.txt'',
                        FunctionCall ''read_file'' ''notes.txt'' (Inl (errorString ''no such file'')),
                        ExecuteToolCall ''t1'' ''list_files'' ''.'',
                        FunctionCall ''list_files'' ''.'' (Inr ''go.mod main.go''),
                        Appended (NewUserMessage
                          [ToolResultBlockParam ''t2'' ''no such file'' True,
                           ToolResultBlockParam ''t1'' ''go.mod main.go'' False])]\<rparr>\<rparr>"

text \<open>An agent whose input fails, and one whose model fails at its second call.\<close>

definition deafAgent :: "nat Agent" where
  "deafAgent = exampleAgent\<lparr>readInput := (\<lambda>w. Some (Inl (errorString ''EOF''), w))\<rparr>"

definition cutOffAgent :: "nat Agent" where
  "cutOffAgent =
     exampleAgent\<lparr>client := (\<lambda>msgs anthropicTools w.
       if length msgs = 1 then (Inr askBoth, w) else (Inl (errorString ''overloaded''), w))\<rparr>"

definition afterAnswer :: "nat loop" where
  "afterAnswer =
     \<lparr>takeInput = True,
      messages = messages afterTools @ [ToParam answer],
      world = \<lparr>ext = 2,
               calls = calls (world afterTools)
                 @ [InferCall (messages afterTools) (toolParams (tools exampleAgent)),
                    Appended (ToParam answer), WriteOutputCall ''Done.'']\<rparr>\<rparr>"

text \<open>A model that answers with no content at all.\<close>

definition silentAgent :: "nat Agent" where
  "silentAgent = exampleAgent\<lparr>client := (\<lambda>msgs anthropicTools w. (Inr (Message []), w))\<rparr>"

text \<open>
  An agent on the network, as \<^verbatim>\<open>NewCoderAgent\<close> makes it, with a model that always
  answers in text. The response writer with handle 7 fails at every write, the others are
  sound. A handler has sent its request and the handle of its response writer.
\<close>

definition brokenWriter :: ResponseWriter where
  "brokenWriter = \<lparr>Header = [], Status = None, Written = [], WriteErr = Some (errorString ''broken pipe'')\<rparr>"

definition freshWriter :: ResponseWriter where
  "freshWriter = \<lparr>Header = [], Status = None, Written = [], WriteErr = None\<rparr>"

definition netClient :: "MessageParam list \<Rightarrow> ToolParam list \<Rightarrow> Net \<Rightarrow> (error + Message) \<times> Net" where
  "netClient msgs anthropicTools net = (Inr answer, net)"

definition unplugged :: Net where
  "unplugged =
     \<lparr>requestChan = makeChan 0, responseChan = makeChan 0, doneChan = makeChan 0,
      writers = (\<lambda>h. if h = 7 then brokenWriter else freshWriter)\<rparr>"

definition coder :: "Net Agent" where
  "coder = fst (NewCoderAgent netClient [] (\<lambda>net. None) (\<lambda>text net. None) unplugged)"

definition coderNet :: Net where
  "coderNet = snd (NewCoderAgent netClient [] (\<lambda>net. None) (\<lambda>text net. None) unplugged)"

definition coderSched :: "Net Sched" where
  "coderSched = \<lparr>runNext = (\<lambda>net n. 0), sendNext = (\<lambda>net n. 0)\<rparr>"

definition arrived :: "nat \<Rightarrow> Net" where
  "arrived h =
     coderNet\<lparr>requestChan := \<lparr>buf = [Request ''POST'' (Inr ''list files in .'')], cap = 1\<rparr>,
              responseChan := \<lparr>buf = [h], cap = 1\<rparr>\<rparr>"

definition taken :: "nat \<Rightarrow> Net" where
  "taken h = (arrived h)\<lparr>requestChan := \<lparr>buf = [], cap = 1\<rparr>\<rparr>"

definition coderRead :: "nat \<Rightarrow> Net loop" where
  "coderRead h =
     \<lparr>takeInput = True, messages = [NewUserMessage [NewTextBlock ''list files in .'']],
      world = \<lparr>ext = taken h,
               calls = [ReadInputCall,
                        Appended (NewUserMessage [NewTextBlock ''list files in .''])]\<rparr>\<rparr>"

lemmas example_defs =
  exampleAgent_def exampleSched_def listFiles_def readFile_def toolUse_def textSegment_def
  askBoth_def answer_def

lemmas run_defs =
  iteration_def readTurn_def Infer_def emitOrFeed_def ExecuteTool_def logCall_def
  NewToolResultBlock_def NewUserMessage_def NewTextBlock_def ToParam_def BlockToParam_def
  AsAny_def without_def toolParams_def start_def Let_def runGoroutines.simps

lemmas net_defs =
  coder_def coderNet_def unplugged_def arrived_def taken_def NewCoderAgent_def NewAgent_def
  makeChan_def send_def recv_def readFromNetwork_def brokenWriter_def freshWriter_def
  netClient_def

section \<open>ExecuteTool: the three kinds of result\<close>

lemma findTool_None: "toolName \<notin> Name ` set ts \<Longrightarrow> findTool toolName ts = None"
  by (induction ts) auto

lemma findTool_Some: "findTool toolName ts = Some toolDef \<Longrightarrow> toolDef \<in> set ts \<and> Name toolDef = toolName"
  by (induction ts) (auto split: if_splits)

lemma ExecuteTool_shape:
  "\<exists>c e. fst (ExecuteTool a toolID toolName toolInput s) = ToolResultBlockParam toolID c e"
  by (auto simp: ExecuteTool_def NewToolResultBlock_def Let_def
        split: option.splits prod.splits sum.splits)

lemma ExecuteTool_calls:
  "\<exists>evs. calls (snd (ExecuteTool a toolID toolName toolInput s)) = calls s @ evs
     \<and> (\<forall>e\<in>set evs. isToolCall e)"
  by (auto simp: ExecuteTool_def logCall_def Let_def split: option.splits prod.splits sum.splits)

lemma ExecuteTool_failed:
  assumes "ExecuteTool a toolID toolName toolInput s = (r, s1)"
    and "calls s1 = calls s @ evs" and "FunctionCall n inp (Inl err) \<in> set evs"
  shows "n = toolName \<and> inp = toolInput \<and> r = ToolResultBlockParam toolID (Error err) True"
  using assms
  by (auto simp: ExecuteTool_def logCall_def NewToolResultBlock_def Let_def
        split: option.splits prod.splits sum.splits)

lemma ExecuteTool_registered:
  assumes "findTool toolName (tools a) = Some toolDef"
    and "Function toolDef toolInput (ext s) = (v, w0)"
  shows "ExecuteTool a toolID toolName toolInput s =
           (case v of Inl e \<Rightarrow> ToolResultBlockParam toolID (Error e) True
                    | Inr r \<Rightarrow> ToolResultBlockParam toolID r False,
            \<lparr>ext = w0, calls = calls s @ [ExecuteToolCall toolID toolName toolInput,
                                         FunctionCall toolName toolInput v]\<rparr>)"
  using assms
  by (cases v) (simp_all add: ExecuteTool_def logCall_def NewToolResultBlock_def)

text \<open>
  C3. For a tool name that no tool of the agent carries, ExecuteTool returns the failed
  result with the fixed text "Tool not found" under the identifier it was given; it calls
  no tool function: the surroundings are unchanged and the only step recorded is the call
  of ExecuteTool itself.
\<close>

theorem ExecuteTool_unknown_tool:
  assumes "toolName \<notin> Name ` set (tools a)"
  shows "ExecuteTool a toolID toolName toolInput s =
           (ToolResultBlockParam toolID ''Tool not found'' True,
            s\<lparr>calls := calls s @ [ExecuteToolCall toolID toolName toolInput]\<rparr>)"
  using findTool_None [OF assms]
  by (simp add: ExecuteTool_def NewToolResultBlock_def logCall_def)

theorem ExecuteTool_unknown_tool_witness:
  "''delete_everything'' \<notin> Name ` set (tools exampleAgent)
   \<and> ExecuteTool exampleAgent ''t9'' ''delete_everything'' ''{}'' \<lparr>ext = 0, calls = []\<rparr> =
       (ToolResultBlockParam ''t9'' ''Tool not found'' True,
        \<lparr>ext = 0, calls = [ExecuteToolCall ''t9'' ''delete_everything'' ''{}'']\<rparr>)"
proof -
  have unknown: "''delete_everything'' \<notin> Name ` set (tools exampleAgent)"
    by (simp add: example_defs)
  show ?thesis
    using unknown
      ExecuteTool_unknown_tool [OF unknown, of "''t9''" "''{}''" "\<lparr>ext = 0, calls = []\<rparr>"]
    by simp
qed

section \<open>Fan-out and fan-in: what the dispatch of one turn returns\<close>

lemma spawn_requests:
  "spawn cs (k, g) = (k + length (requests (Message cs)), g @ requests (Message cs))"
  by (induction cs arbitrary: k g) (auto simp: requests_def split: anyContentBlock.splits)

lemma mset_without: "i < length xs \<Longrightarrow> add_mset (xs ! i) (mset (without i xs)) = mset xs"
  unfolding without_def
  by (metis add_mset_add_single id_take_nth_drop mset.simps(2) mset_append union_mset_add_mset_right)

lemma set_without: "i < length xs \<Longrightarrow> insert (xs ! i) (set (without i xs)) = set xs"
  by (metis mset_without set_mset_add_mset_insert set_mset_mset)

lemma length_without: "i < length xs \<Longrightarrow> Suc (length (without i xs)) = length xs"
  by (simp add: without_def)

lemma runGoroutines_cases [consumes 1, case_names none some]:
  assumes "runGoroutines a nxt started s = (waiting, s')"
    and "\<And>s. P [] s [] s"
    and "\<And>started s i toolID toolName toolInput toolResult s1 later s2.
           i < length started \<Longrightarrow> started ! i = (toolID, toolName, toolInput) \<Longrightarrow>
           ExecuteTool a toolID toolName toolInput s = (toolResult, s1) \<Longrightarrow>
           runGoroutines a nxt (without i started) s1 = (later, s2) \<Longrightarrow>
           P (without i started) s1 later s2 \<Longrightarrow> P started s (toolResult # later) s2"
  shows "P started s waiting s'"
  using assms(1)
proof (induction "length started" arbitrary: started s waiting s')
  case 0
  then show ?case
    using assms(2) by (simp add: runGoroutines.simps)
next
  case (Suc k)
  have ne: "started \<noteq> []"
    using Suc.hyps(2) by auto
  define i where "i = nxt (ext s) (length started) mod length started"
  have i: "i < length started"
    using ne by (simp add: i_def)
  obtain toolID toolName toolInput where g: "started ! i = (toolID, toolName, toolInput)"
    by (cases "started ! i") auto
  obtain toolResult s1 where e: "ExecuteTool a toolID toolName toolInput s = (toolResult, s1)"
    by (cases "ExecuteTool a toolID toolName toolInput s") auto
  obtain later s2 where r: "runGoroutines a nxt (without i started) s1 = (later, s2)"
    by (cases "runGoroutines a nxt (without i started) s1") auto
  have w: "waiting = toolResult # later" and s': "s' = s2"
    using Suc.prems ne g e r
    by (simp_all add: runGoroutines.simps [of a nxt started s] i_def [symmetric] Let_def)
  have "k = length (without i started)"
    using length_without [OF i] Suc.hyps(2) by simp
  then have "P (without i started) s1 later s2"
    using Suc.hyps(1) r by blast
  then show ?case
    unfolding w s' using assms(3) [OF i g e r] by blast
qed

lemma runGoroutines_ids:
  assumes "runGoroutines a nxt started s = (waiting, s')"
  shows "mset (map ToolUseID waiting) = mset (map fst started) \<and> (\<forall>r\<in>set waiting. isToolResult r)"
  using assms
proof (induction rule: runGoroutines_cases)
  case (none s)
  show ?case by simp
next
  case (some started s i toolID toolName toolInput toolResult s1 later s2)
  obtain c e where sh: "toolResult = ToolResultBlockParam toolID c e"
    using ExecuteTool_shape [of a toolID toolName toolInput s] some(3) by auto
  have "mset (map fst started) = add_mset (fst (started ! i)) (mset (map fst (without i started)))"
    using mset_without [OF some(1)] by (metis image_mset_add_mset mset_map)
  then show ?case using some sh by simp
qed

lemma runGoroutines_length:
  assumes "runGoroutines a nxt started s = (waiting, s')"
  shows "length waiting = length started"
  using assms
  by (induction rule: runGoroutines_cases) (auto simp: length_without)

lemma runGoroutines_calls:
  assumes "runGoroutines a nxt started s = (waiting, s')"
  shows "\<exists>evs. calls s' = calls s @ evs \<and> (\<forall>e\<in>set evs. isToolCall e)"
  using assms
proof (induction rule: runGoroutines_cases)
  case (none s)
  show ?case by simp
next
  case (some started s i toolID toolName toolInput toolResult s1 later s2)
  obtain evs1 where 1: "calls s1 = calls s @ evs1" "\<forall>e\<in>set evs1. isToolCall e"
    using ExecuteTool_calls [of a toolID toolName toolInput s] some(3) by auto
  obtain evs2 where 2: "calls s2 = calls s1 @ evs2" "\<forall>e\<in>set evs2. isToolCall e"
    using some(5) by auto
  have "calls s2 = calls s @ (evs1 @ evs2) \<and> (\<forall>e\<in>set (evs1 @ evs2). isToolCall e)"
    using 1 2 by auto
  then show ?case by blast
qed

lemma runGoroutines_failed:
  assumes "runGoroutines a nxt started s = (waiting, s')"
    and "calls s' = calls s @ evs" and "FunctionCall n inp (Inl err) \<in> set evs"
  shows "\<exists>i. (i, n, inp) \<in> set started \<and> ToolResultBlockParam i (Error err) True \<in> set waiting"
  using assms
proof (induction arbitrary: evs rule: runGoroutines_cases)
  case (none s)
  then show ?case by simp
next
  case (some started s i toolID toolName toolInput toolResult s1 later s2)
  obtain evs1 where 1: "calls s1 = calls s @ evs1"
    using ExecuteTool_calls [of a toolID toolName toolInput s] some(3) by auto
  obtain evs2 where 2: "calls s2 = calls s1 @ evs2"
    using runGoroutines_calls [OF some(4)] by auto
  have evs: "evs = evs1 @ evs2"
    using 1 2 some.prems(1) by simp
  have mem: "set (without i started) \<subseteq> set started" "started ! i \<in> set started"
    using set_without [OF some(1)] by auto
  from some.prems(2) evs consider "FunctionCall n inp (Inl err) \<in> set evs1"
    | "FunctionCall n inp (Inl err) \<in> set evs2" by auto
  then show ?case
  proof cases
    case 1
    from ExecuteTool_failed [OF some(3) \<open>calls s1 = calls s @ evs1\<close> 1]
    show ?thesis using mem some(2) by auto
  next
    case 2
    from some.IH [OF \<open>calls s2 = calls s1 @ evs2\<close> 2]
    show ?thesis using mem by auto
  qed
qed

lemma runGoroutines_runs_each:
  assumes "runGoroutines a nxt started s = (waiting, s')"
    and "(i, n, inp) \<in> set started"
  shows "\<exists>s1 before after.
           calls s1 = calls s @ before
         \<and> calls s' = calls (snd (ExecuteTool a i n inp s1)) @ after
         \<and> fst (ExecuteTool a i n inp s1) \<in> set waiting"
  using assms
proof (induction rule: runGoroutines_cases)
  case (none s)
  then show ?case by simp
next
  case (some started s k toolID toolName toolInput toolResult s1 later s2)
  obtain evs1 where 1: "calls s1 = calls s @ evs1"
    using ExecuteTool_calls [of a toolID toolName toolInput s] some(3) by auto
  obtain evs2 where 2: "calls s2 = calls s1 @ evs2"
    using runGoroutines_calls [OF some(4)] by auto
  from some.prems set_without [OF some(1)]
  consider "(i, n, inp) = started ! k" | "(i, n, inp) \<in> set (without k started)"
    by auto
  then show ?case
  proof cases
    case 1
    then have "ExecuteTool a i n inp s = (toolResult, s1)"
      using some(2,3) by simp
    then have "calls s = calls s @ [] \<and> calls s2 = calls (snd (ExecuteTool a i n inp s)) @ evs2
         \<and> fst (ExecuteTool a i n inp s) \<in> set (toolResult # later)"
      using 2 by simp
    then show ?thesis by blast
  next
    case 2
    from some.IH [OF 2] obtain s3 before after where
      "calls s3 = calls s1 @ before"
      "calls s2 = calls (snd (ExecuteTool a i n inp s3)) @ after"
      "fst (ExecuteTool a i n inp s3) \<in> set later" by blast
    then have "calls s3 = calls s @ (evs1 @ before)
         \<and> calls s2 = calls (snd (ExecuteTool a i n inp s3)) @ after
         \<and> fst (ExecuteTool a i n inp s3) \<in> set (toolResult # later)"
      using \<open>calls s1 = calls s @ evs1\<close> by simp
    then show ?thesis by blast
  qed
qed

lemma receive_all:
  "n = length waiting \<Longrightarrow> \<exists>res. receive n nxt waiting acc = Some res \<and> mset res = mset acc + mset waiting"
proof (induction n arbitrary: waiting acc)
  case 0
  then show ?case by simp
next
  case (Suc n)
  then have ne: "waiting \<noteq> []" by auto
  define i where "i = nxt (length waiting) mod length waiting"
  have i: "i < length waiting" using ne by (simp add: i_def)
  have "n = length (without i waiting)"
    using length_without [OF i] Suc.prems by simp
  from Suc.IH [OF this, of "acc @ [waiting ! i]"]
  obtain res where "receive n nxt (without i waiting) (acc @ [waiting ! i]) = Some res"
    and "mset res = mset (acc @ [waiting ! i]) + mset (without i waiting)" by blast
  then show ?case
    using ne mset_without [OF i] by (simp add: i_def [symmetric] Let_def)
qed

section \<open>One iteration of the loop, case by case\<close>

lemma readTurn_Continue:
  assumes "readTurn a st = Continue st1"
  shows "takeInput st1 = takeInput st
    \<and> (if takeInput st
        then \<exists>input w. readInput a (ext (world st)) = Some (Inr input, w)
               \<and> messages st1 = messages st @ [NewUserMessage [NewTextBlock input]]
               \<and> world st1 = \<lparr>ext = w, calls = calls (world st) @ [ReadInputCall, Appended (NewUserMessage [NewTextBlock input])]\<rparr>
        else st1 = st)"
  using assms
  by (auto simp: readTurn_def logCall_def split: if_splits option.splits sum.splits prod.splits)

lemma iteration_infer_error:
  assumes "readTurn a st = Continue st1"
    and "client a (messages st1) tps (ext (world st1)) = (Inl err, w)"
  shows "iteration a sch tps st =
           Return [] err \<lparr>ext = w, calls = calls (world st1) @ [InferCall (messages st1) tps]\<rparr>"
  using assms by (simp add: iteration_def Infer_def logCall_def)

lemma iteration_response:
  assumes "readTurn a st = Continue st1"
    and "client a (messages st1) tps (ext (world st1)) = (Inr response, w)"
  obtains waiting s' toolResults where
    "runGoroutines a (runNext sch) (requests response)
       \<lparr>ext = w, calls = calls (world st1) @ [InferCall (messages st1) tps, Appended (ToParam response)]\<rparr>
       = (waiting, s')"
    and "mset toolResults = mset waiting"
    and "iteration a sch tps st =
           emitOrFeed a response toolResults
             \<lparr>takeInput = takeInput st1, messages = messages st1 @ [ToParam response], world = s'\<rparr>"
proof -
  let ?s = "\<lparr>ext = w, calls = calls (world st1) @ [InferCall (messages st1) tps, Appended (ToParam response)]\<rparr>"
  obtain waiting s' where run: "runGoroutines a (runNext sch) (requests response) ?s = (waiting, s')"
    by (cases "runGoroutines a (runNext sch) (requests response) ?s") auto
  have sp: "spawn (Content response) (0, []) = (length (requests response), requests response)"
    using spawn_requests [of "Content response" 0 "[]"] by simp
  have len: "length (requests response) = length waiting"
    using runGoroutines_length [OF run] by simp
  obtain toolResults where rec: "receive (length (requests response)) (sendNext sch (ext s')) waiting [] = Some toolResults"
    and ms: "mset toolResults = mset [] + mset waiting"
    using receive_all [OF len, of "sendNext sch (ext s')" "[]"] by blast
  have sys: "\<And>evs. (world st1)\<lparr>ext := w, calls := evs\<rparr> = \<lparr>ext = w, calls = evs\<rparr>"
    by (cases "world st1") simp
  have loop: "\<And>ms. st1\<lparr>messages := ms, world := s'\<rparr> = \<lparr>takeInput = takeInput st1, messages = ms, world = s'\<rparr>"
    by (cases st1) simp
  have "iteration a sch tps st =
           emitOrFeed a response toolResults
             \<lparr>takeInput = takeInput st1, messages = messages st1 @ [ToParam response], world = s'\<rparr>"
    using assms sp run rec by (simp add: iteration_def Infer_def logCall_def sys loop)
  then show thesis
    using that run ms by simp
qed

lemma iteration_with_tools:
  assumes "readTurn a st = Continue st1"
    and "client a (messages st1) tps (ext (world st1)) = (Inr response, w)"
    and "requests response \<noteq> []"
  obtains toolResults evs w' where
    "iteration a sch tps st =
       Continue \<lparr>takeInput = False,
                 messages = messages st1 @ [ToParam response, NewUserMessage toolResults],
                 world = \<lparr>ext = w',
                          calls = calls (world st1)
                            @ [InferCall (messages st1) tps, Appended (ToParam response)]
                            @ evs @ [Appended (NewUserMessage toolResults)]\<rparr>\<rparr>"
    and "\<forall>e\<in>set evs. isToolCall e"
    and "mset (map ToolUseID toolResults) = mset (map fst (requests response))"
    and "\<forall>r\<in>set toolResults. isToolResult r"
    and "\<forall>n inp err. FunctionCall n inp (Inl err) \<in> set evs \<longrightarrow>
           (\<exists>i. (i, n, inp) \<in> set (requests response)
                \<and> ToolResultBlockParam i (Error err) True \<in> set toolResults)"
proof -
  let ?s = "\<lparr>ext = w, calls = calls (world st1) @ [InferCall (messages st1) tps, Appended (ToParam response)]\<rparr>"
  obtain waiting s' toolResults where
    run: "runGoroutines a (runNext sch) (requests response) ?s = (waiting, s')"
    and ms: "mset toolResults = mset waiting"
    and it: "iteration a sch tps st =
           emitOrFeed a response toolResults
             \<lparr>takeInput = takeInput st1, messages = messages st1 @ [ToParam response], world = s'\<rparr>"
    using iteration_response [OF assms(1,2)] by metis
  obtain evs where evs: "calls s' = calls ?s @ evs" and tool: "\<forall>e\<in>set evs. isToolCall e"
    using runGoroutines_calls [OF run] by blast
  have ids: "mset (map ToolUseID waiting) = mset (map fst (requests response))"
    and res: "\<forall>r\<in>set waiting. isToolResult r"
    using runGoroutines_ids [OF run] by simp_all
  have set_eq: "set toolResults = set waiting"
    using ms by (metis set_mset_mset)
  have ids': "mset (map ToolUseID toolResults) = mset (map fst (requests response))"
    using ids ms by (metis mset_map)
  have "length waiting = length (requests response)"
    using runGoroutines_length [OF run] .
  then have ne: "toolResults \<noteq> []"
    using assms(3) ms by (metis length_0_conv mset_zero_iff)
  have failed: "\<forall>n inp err. FunctionCall n inp (Inl err) \<in> set evs \<longrightarrow>
           (\<exists>i. (i, n, inp) \<in> set (requests response)
                \<and> ToolResultBlockParam i (Error err) True \<in> set toolResults)"
    using runGoroutines_failed [OF run evs] set_eq by blast
  have s': "s' = \<lparr>ext = ext s', calls = calls s'\<rparr>"
    by simp
  have "iteration a sch tps st =
       Continue \<lparr>takeInput = False,
                 messages = messages st1 @ [ToParam response, NewUserMessage toolResults],
                 world = \<lparr>ext = ext s',
                          calls = calls (world st1)
                            @ [InferCall (messages st1) tps, Appended (ToParam response)]
                            @ evs @ [Appended (NewUserMessage toolResults)]\<rparr>\<rparr>"
    using it ne evs by (simp add: emitOrFeed_def logCall_def)
  then show thesis
    using that tool ids' res set_eq failed by blast
qed

lemma iteration_runs_each:
  assumes "readTurn a st = Continue st1"
    and "client a (messages st1) tps (ext (world st1)) = (Inr response, w)"
    and "(i, n, inp) \<in> set (requests response)"
  obtains toolResults evs w' s1 before after where
    "iteration a sch tps st =
       Continue \<lparr>takeInput = False,
                 messages = messages st1 @ [ToParam response, NewUserMessage toolResults],
                 world = \<lparr>ext = w',
                          calls = calls (world st1)
                            @ [InferCall (messages st1) tps, Appended (ToParam response)]
                            @ evs @ [Appended (NewUserMessage toolResults)]\<rparr>\<rparr>"
    and "calls (world st1) @ [InferCall (messages st1) tps, Appended (ToParam response)] @ evs
           = calls (snd (ExecuteTool a i n inp s1)) @ after"
    and "calls s1 = calls (world st1) @ [InferCall (messages st1) tps, Appended (ToParam response)] @ before"
    and "fst (ExecuteTool a i n inp s1) \<in> set toolResults"
    and "\<forall>n inp err. FunctionCall n inp (Inl err) \<in> set evs \<longrightarrow>
           (\<exists>i. (i, n, inp) \<in> set (requests response)
                \<and> ToolResultBlockParam i (Error err) True \<in> set toolResults)"
proof -
  let ?s = "\<lparr>ext = w, calls = calls (world st1) @ [InferCall (messages st1) tps, Appended (ToParam response)]\<rparr>"
  obtain waiting s' toolResults where
    run: "runGoroutines a (runNext sch) (requests response) ?s = (waiting, s')"
    and ms: "mset toolResults = mset waiting"
    and it: "iteration a sch tps st =
           emitOrFeed a response toolResults
             \<lparr>takeInput = takeInput st1, messages = messages st1 @ [ToParam response], world = s'\<rparr>"
    using iteration_response [OF assms(1,2)] by metis
  obtain evs where evs: "calls s' = calls ?s @ evs"
    using runGoroutines_calls [OF run] by blast
  have set_eq: "set toolResults = set waiting"
    using ms by (metis set_mset_mset)
  obtain s1 before after where
    b: "calls s1 = calls ?s @ before"
    and a: "calls s' = calls (snd (ExecuteTool a i n inp s1)) @ after"
    and r: "fst (ExecuteTool a i n inp s1) \<in> set waiting"
    using runGoroutines_runs_each [OF run assms(3)] by blast
  have ne: "toolResults \<noteq> []"
    using r set_eq by auto
  have failed: "\<forall>n inp err. FunctionCall n inp (Inl err) \<in> set evs \<longrightarrow>
           (\<exists>i. (i, n, inp) \<in> set (requests response)
                \<and> ToolResultBlockParam i (Error err) True \<in> set toolResults)"
    using runGoroutines_failed [OF run evs] set_eq by blast
  have "iteration a sch tps st =
       Continue \<lparr>takeInput = False,
                 messages = messages st1 @ [ToParam response, NewUserMessage toolResults],
                 world = \<lparr>ext = ext s',
                          calls = calls (world st1)
                            @ [InferCall (messages st1) tps, Appended (ToParam response)]
                            @ evs @ [Appended (NewUserMessage toolResults)]\<rparr>\<rparr>"
    using it ne evs by (simp add: emitOrFeed_def logCall_def)
  moreover have "calls (world st1) @ [InferCall (messages st1) tps, Appended (ToParam response)] @ evs
           = calls (snd (ExecuteTool a i n inp s1)) @ after"
    using a evs by simp
  moreover have "calls s1 = calls (world st1) @ [InferCall (messages st1) tps, Appended (ToParam response)] @ before"
    using b by simp
  ultimately show thesis
    using that r set_eq failed by blast
qed

lemma iteration_without_tools:
  assumes "readTurn a st = Continue st1"
    and "client a (messages st1) tps (ext (world st1)) = (Inr response, w)"
    and "requests response = []"
  shows "iteration a sch tps st =
     (case Content response of
        [] \<Rightarrow>
          Panic \<lparr>ext = w, calls = calls (world st1)
                   @ [InferCall (messages st1) tps, Appended (ToParam response)]\<rparr>
      | first # others \<Rightarrow>
          (case writeOutput a (Text first) w of
             None \<Rightarrow>
               Blocked \<lparr>ext = w, calls = calls (world st1)
                   @ [InferCall (messages st1) tps, Appended (ToParam response),
                      WriteOutputCall (Text first)]\<rparr>
           | Some (err, w') \<Rightarrow>
               Continue \<lparr>takeInput = True, messages = messages st1 @ [ToParam response],
                         world = \<lparr>ext = w', calls = calls (world st1)
                           @ [InferCall (messages st1) tps, Appended (ToParam response),
                              WriteOutputCall (Text first)]\<rparr>\<rparr>))"
proof -
  let ?s = "\<lparr>ext = w, calls = calls (world st1) @ [InferCall (messages st1) tps, Appended (ToParam response)]\<rparr>"
  obtain waiting s' toolResults where
    run: "runGoroutines a (runNext sch) (requests response) ?s = (waiting, s')"
    and ms: "mset toolResults = mset waiting"
    and it: "iteration a sch tps st =
           emitOrFeed a response toolResults
             \<lparr>takeInput = takeInput st1, messages = messages st1 @ [ToParam response], world = s'\<rparr>"
    using iteration_response [OF assms(1,2)] by metis
  have "waiting = []" and s': "s' = ?s"
    using run assms(3) by (simp_all add: runGoroutines.simps)
  then have "toolResults = []"
    using ms by simp
  then show ?thesis
    using it s' by (simp add: emitOrFeed_def logCall_def split: list.splits option.splits)
qed

lemma readTurn_cases:
  "(\<not> takeInput st \<and> readTurn a st = Continue st)
   \<or> (takeInput st \<and> readInput a (ext (world st)) = None
        \<and> readTurn a st = Blocked \<lparr>ext = ext (world st), calls = calls (world st) @ [ReadInputCall]\<rparr>)
   \<or> (\<exists>err w. takeInput st \<and> readInput a (ext (world st)) = Some (Inl err, w)
        \<and> readTurn a st = Return [] err \<lparr>ext = w, calls = calls (world st) @ [ReadInputCall]\<rparr>)
   \<or> (\<exists>input w. takeInput st \<and> readInput a (ext (world st)) = Some (Inr input, w)
        \<and> readTurn a st =
            Continue \<lparr>takeInput = True,
                      messages = messages st @ [NewUserMessage [NewTextBlock input]],
                      world = \<lparr>ext = w, calls = calls (world st)
                        @ [ReadInputCall, Appended (NewUserMessage [NewTextBlock input])]\<rparr>\<rparr>)"
  by (cases st; cases "readInput a (ext (world st))")
     (auto simp: readTurn_def logCall_def split: sum.splits prod.splits)

lemma iteration_stopped_reading:
  assumes "readTurn a st = out" and "\<forall>st1. out \<noteq> Continue st1"
  shows "iteration a sch tps st = out"
  using assms by (cases out) (simp_all add: iteration_def)

lemma iteration_after_read:
  assumes "readTurn a st = Continue st1"
  shows "\<exists>rest. calls (sysOf (iteration a sch tps st))
                  = calls (world st1) @ InferCall (messages st1) tps # rest
               \<and> ReadInputCall \<notin> set rest"
proof (cases "client a (messages st1) tps (ext (world st1))")
  case (Pair r w)
  show ?thesis
  proof (cases r)
    case (Inl err)
    then show ?thesis
      using iteration_infer_error [OF assms, of tps err w sch] Pair by simp
  next
    case (Inr response)
    with Pair have cl: "client a (messages st1) tps (ext (world st1)) = (Inr response, w)"
      by simp
    show ?thesis
    proof (cases "requests response = []")
      case True
      show ?thesis
        using iteration_without_tools [OF assms cl True, of sch]
        by (auto split: list.splits option.splits)
    next
      case False
      obtain toolResults evs w' where
        it: "iteration a sch tps st =
          Continue \<lparr>takeInput = False,
                 messages = messages st1 @ [ToParam response, NewUserMessage toolResults],
                 world = \<lparr>ext = w',
                          calls = calls (world st1)
                            @ [InferCall (messages st1) tps, Appended (ToParam response)]
                            @ evs @ [Appended (NewUserMessage toolResults)]\<rparr>\<rparr>"
        and tool: "\<forall>e\<in>set evs. isToolCall e"
        using iteration_with_tools [OF assms cl False, of sch] by metis
      have "ReadInputCall \<notin> set evs"
        using tool by auto
      then show ?thesis
        using it by simp
    qed
  qed
qed

lemma first_call:
  "\<exists>rest. newCalls st (iteration a sch tps st)
             = (if takeInput st then ReadInputCall else InferCall (messages st) tps) # rest
          \<and> (\<not> takeInput st \<longrightarrow> ReadInputCall \<notin> set rest)"
proof -
  consider (skip) "\<not> takeInput st" "readTurn a st = Continue st"
    | (stop) out where "takeInput st" "readTurn a st = out" "\<forall>st1. out \<noteq> Continue st1"
         "calls (sysOf out) = calls (world st) @ [ReadInputCall]"
    | (read) input w where "takeInput st"
        "readTurn a st =
            Continue \<lparr>takeInput = True,
                      messages = messages st @ [NewUserMessage [NewTextBlock input]],
                      world = \<lparr>ext = w, calls = calls (world st)
                        @ [ReadInputCall, Appended (NewUserMessage [NewTextBlock input])]\<rparr>\<rparr>"
    using readTurn_cases [of st a] by (elim disjE exE conjE) auto
  then show ?thesis
  proof cases
    case skip
    then show ?thesis
      using iteration_after_read [OF skip(2), of sch tps] by (auto simp: newCalls_def)
  next
    case stop
    then show ?thesis
      using iteration_stopped_reading [OF stop(2,3), of sch tps] by (simp add: newCalls_def)
  next
    case read
    then show ?thesis
      using iteration_after_read [OF read(2), of sch tps] by (auto simp: newCalls_def)
  qed
qed

lemma iteration_Continue_inv:
  assumes "iteration a sch tps st = Continue st'"
  obtains st1 response w where "readTurn a st = Continue st1"
    and "client a (messages st1) tps (ext (world st1)) = (Inr response, w)"
proof -
  obtain st1 where rd: "readTurn a st = Continue st1"
    using assms iteration_stopped_reading [of a st "readTurn a st" sch tps]
    by (cases "readTurn a st") auto
  obtain r w where cl: "client a (messages st1) tps (ext (world st1)) = (r, w)"
    by (cases "client a (messages st1) tps (ext (world st1))") auto
  show thesis
  proof (cases r)
    case (Inl err)
    then show ?thesis
      using iteration_infer_error [OF rd, of tps err w sch] cl assms by simp
  next
    case (Inr response)
    then show ?thesis
      using that rd cl by simp
  qed
qed

section \<open>The claims about one iteration\<close>

lemma example_first_read: "readTurn exampleAgent (start 0) = Continue firstTurn"
  by (simp add: readTurn_def start_def exampleAgent_def logCall_def firstTurn_def)

lemma example_first_response:
  "client exampleAgent (messages firstTurn) (toolParams (tools exampleAgent)) (ext (world firstTurn))
     = (Inr askBoth, 0)"
  by (simp add: exampleAgent_def firstTurn_def)

lemma example_requests:
  "requests askBoth = [(''t1'', ''list_files'', ''.''), (''t2'', ''read_file'', ''notes.txt'')]"
  by (simp add: requests_def askBoth_def toolUse_def textSegment_def AsAny_def)

lemma example_second_read: "readTurn exampleAgent afterTools = Continue afterTools"
  by (simp add: readTurn_def afterTools_def)

lemma example_second_response:
  "client exampleAgent (messages afterTools) (toolParams (tools exampleAgent)) (ext (world afterTools))
     = (Inr answer, 2)"
  by (simp add: exampleAgent_def afterTools_def)

lemma example_no_requests: "requests answer = []"
  by (simp add: requests_def answer_def textSegment_def AsAny_def)

text \<open>
  C1. When the model's turn holds one or more tool-invocation requests, the iteration ends
  by appending, right after the model's turn, one turn of tool results: as many results as
  requests, every one a tool result, their identifiers the identifiers of the requests
  counted with multiplicity (none missing, none twice where the requests' identifiers are
  distinct). Every result of ExecuteTool carries the identifier that ExecuteTool was given.
\<close>

theorem results_match_requests:
  assumes "readTurn a st = Continue st1"
    and "client a (messages st1) tps (ext (world st1)) = (Inr response, w)"
    and "requests response \<noteq> []"
  shows "\<exists>toolResults s'.
           iteration a sch tps st =
             Continue \<lparr>takeInput = False,
                       messages = messages st1 @ [ToParam response, NewUserMessage toolResults],
                       world = s'\<rparr>
         \<and> length toolResults = length (requests response)
         \<and> (\<forall>r\<in>set toolResults. isToolResult r)
         \<and> mset (map ToolUseID toolResults) = mset (map fst (requests response))
         \<and> (distinct (map fst (requests response)) \<longrightarrow> distinct (map ToolUseID toolResults))
         \<and> (\<forall>toolID toolName toolInput s. \<exists>content isError.
               fst (ExecuteTool a toolID toolName toolInput s)
                 = ToolResultBlockParam toolID content isError)"
proof -
  obtain toolResults evs w' where
    it: "iteration a sch tps st =
       Continue \<lparr>takeInput = False,
                 messages = messages st1 @ [ToParam response, NewUserMessage toolResults],
                 world = \<lparr>ext = w',
                          calls = calls (world st1)
                            @ [InferCall (messages st1) tps, Appended (ToParam response)]
                            @ evs @ [Appended (NewUserMessage toolResults)]\<rparr>\<rparr>"
    and ids: "mset (map ToolUseID toolResults) = mset (map fst (requests response))"
    and res: "\<forall>r\<in>set toolResults. isToolResult r"
    using iteration_with_tools [OF assms, of sch] by metis
  have len: "length toolResults = length (requests response)"
    using ids by (metis length_map size_mset)
  have dist: "distinct (map fst (requests response)) \<longrightarrow> distinct (map ToolUseID toolResults)"
    using ids by (metis mset_eq_imp_distinct_iff)
  show ?thesis
    using it len res ids dist ExecuteTool_shape by blast
qed

theorem results_match_requests_witness:
  "readTurn exampleAgent (start 0) = Continue firstTurn
   \<and> client exampleAgent (messages firstTurn) (toolParams (tools exampleAgent))
        (ext (world firstTurn)) = (Inr askBoth, 0)
   \<and> requests askBoth \<noteq> []
   \<and> (\<exists>toolResults s'.
         iteration exampleAgent exampleSched (toolParams (tools exampleAgent)) (start 0) =
           Continue \<lparr>takeInput = False,
                     messages = messages firstTurn @ [ToParam askBoth, NewUserMessage toolResults],
                     world = s'\<rparr>
         \<and> length toolResults = 2
         \<and> mset (map ToolUseID toolResults) = {#''t1'', ''t2''#}
         \<and> distinct (map ToolUseID toolResults))"
proof -
  have ne: "requests askBoth \<noteq> []"
    by (simp add: example_requests)
  show ?thesis
    using example_first_read example_first_response ne
      results_match_requests [OF example_first_read example_first_response ne, of exampleSched]
    by (auto simp: example_requests)
qed

text \<open>
  C2. When the model's turn holds no tool-invocation request, the iteration records no step
  of tool execution; after the call of the model and the append of its turn the only further
  call is writeOutput with the text of the first content segment (none at all when there is
  no segment), and when that call returns the loop goes on with takeInput set.
\<close>

theorem no_requests_emits_first_segment:
  assumes "readTurn a st = Continue st1"
    and "client a (messages st1) tps (ext (world st1)) = (Inr response, w)"
    and "requests response = []"
  shows "calls (sysOf (iteration a sch tps st)) =
           calls (world st1) @ [InferCall (messages st1) tps, Appended (ToParam response)]
             @ map WriteOutputCall (map Text (take 1 (Content response)))
       \<and> (\<forall>e\<in>set (newCalls st (iteration a sch tps st)). \<not> isToolCall e)
       \<and> (\<forall>first others err w'.
            Content response = first # others \<and> writeOutput a (Text first) w = Some (err, w') \<longrightarrow>
            iteration a sch tps st =
              Continue \<lparr>takeInput = True, messages = messages st1 @ [ToParam response],
                        world = \<lparr>ext = w', calls = calls (world st1)
                          @ [InferCall (messages st1) tps, Appended (ToParam response),
                             WriteOutputCall (Text first)]\<rparr>\<rparr>)"
proof -
  note it = iteration_without_tools [OF assms, of sch]
  have 1: "calls (sysOf (iteration a sch tps st)) =
           calls (world st1) @ [InferCall (messages st1) tps, Appended (ToParam response)]
             @ map WriteOutputCall (map Text (take 1 (Content response)))"
    using it by (auto split: list.splits option.splits)
  obtain pre where pre: "calls (world st1) = calls (world st) @ pre" "\<forall>e\<in>set pre. \<not> isToolCall e"
    using readTurn_Continue [OF assms(1)] by (cases "takeInput st") auto
  have 2: "\<forall>e\<in>set (newCalls st (iteration a sch tps st)). \<not> isToolCall e"
    using 1 pre by (cases "Content response") (auto simp: newCalls_def)
  have 3: "\<forall>first others err w'.
            Content response = first # others \<and> writeOutput a (Text first) w = Some (err, w') \<longrightarrow>
            iteration a sch tps st =
              Continue \<lparr>takeInput = True, messages = messages st1 @ [ToParam response],
                        world = \<lparr>ext = w', calls = calls (world st1)
                          @ [InferCall (messages st1) tps, Appended (ToParam response),
                             WriteOutputCall (Text first)]\<rparr>\<rparr>"
    using it by auto
  show ?thesis
    using 1 2 3 by blast
qed

theorem no_requests_emits_first_segment_witness:
  "readTurn exampleAgent afterTools = Continue afterTools
   \<and> client exampleAgent (messages afterTools) (toolParams (tools exampleAgent))
        (ext (world afterTools)) = (Inr answer, 2)
   \<and> requests answer = []
   \<and> calls (sysOf (iteration exampleAgent exampleSched (toolParams (tools exampleAgent)) afterTools)) =
       calls (world afterTools)
         @ [InferCall (messages afterTools) (toolParams (tools exampleAgent)),
            Appended (ToParam answer), WriteOutputCall ''Done.'']"
  using example_second_read example_second_response example_no_requests
    no_requests_emits_first_segment [OF example_second_read example_second_response
      example_no_requests, of exampleSched]
  by (simp add: answer_def textSegment_def)

text \<open>
  C10. With a model turn that holds no tool-invocation request the loop reads the first
  element of the content list unguarded: the iteration ends in an index-out-of-range panic
  exactly when the content list is empty, before any output is written.
\<close>

theorem empty_content_panics:
  assumes "readTurn a st = Continue st1"
    and "client a (messages st1) tps (ext (world st1)) = (Inr response, w)"
  shows "((\<exists>s. iteration a sch tps st = Panic s) \<longleftrightarrow> Content response = [])
       \<and> (Content response = [] \<longrightarrow>
            iteration a sch tps st =
              Panic \<lparr>ext = w, calls = calls (world st1)
                       @ [InferCall (messages st1) tps, Appended (ToParam response)]\<rparr>)"
proof (cases "requests response = []")
  case True
  show ?thesis
    using iteration_without_tools [OF assms True, of sch]
    by (auto split: list.splits option.splits)
next
  case False
  then have "Content response \<noteq> []"
    by (auto simp: requests_def)
  moreover have "\<not> (\<exists>s. iteration a sch tps st = Panic s)"
    using iteration_with_tools [OF assms False, of sch] by (metis outcome.distinct(3))
  ultimately show ?thesis
    by simp
qed

theorem empty_content_panics_witness:
  "readTurn silentAgent (start 0) = Continue firstTurn
   \<and> client silentAgent (messages firstTurn) [] (ext (world firstTurn)) = (Inr (Message []), 0)
   \<and> iteration silentAgent exampleSched [] (start 0) =
       Panic \<lparr>ext = 0, calls = calls (world firstTurn)
                @ [InferCall (messages firstTurn) [], Appended (ToParam (Message []))]\<rparr>"
proof -
  have rd: "readTurn silentAgent (start 0) = Continue firstTurn"
    by (simp add: readTurn_def start_def silentAgent_def exampleAgent_def logCall_def firstTurn_def)
  have cl: "client silentAgent (messages firstTurn) [] (ext (world firstTurn)) = (Inr (Message []), 0)"
    by (simp add: silentAgent_def firstTurn_def)
  show ?thesis
    using rd cl empty_content_panics [OF rd cl, of exampleSched] by simp
qed

section \<open>The claims about the loop\<close>

lemma example_first_iteration:
  "iteration exampleAgent exampleSched (toolParams (tools exampleAgent)) (start 0) = Continue afterTools"
  by (simp add: run_defs example_defs afterTools_def)

lemma cutOff_first_iteration:
  "iteration cutOffAgent exampleSched (toolParams (tools cutOffAgent)) (start 0) = Continue afterTools"
  by (simp add: run_defs example_defs afterTools_def cutOffAgent_def)

lemma appendedTurns_append: "appendedTurns (xs @ ys) = appendedTurns xs @ appendedTurns ys"
  by (induction xs rule: appendedTurns.induct) auto

lemma appendedTurns_tools: "\<forall>e\<in>set evs. isToolCall e \<Longrightarrow> appendedTurns evs = []"
  by (induction evs rule: appendedTurns.induct) auto

lemma iteration_Continue_shape:
  assumes "iteration a sch tps st = Continue st'"
  obtains before response evs rest where
    "newCalls st (Continue st') = before @ Appended (ToParam response) # evs @ rest"
    and "\<forall>e\<in>set before. \<not> isToolCall e"
    and "\<forall>e\<in>set evs. isToolCall e"
    and "(evs = [] \<and> takeInput st' \<and> (\<exists>text. rest = [WriteOutputCall text])
           \<and> messages st' = (messages st @ appendedTurns before) @ [ToParam response])
       \<or> (\<not> takeInput st' \<and> (\<exists>toolResults. toolResults \<noteq> [] \<and> (\<forall>r\<in>set toolResults. isToolResult r)
             \<and> rest = [Appended (NewUserMessage toolResults)]
             \<and> messages st' = (messages st @ appendedTurns before)
                                 @ [ToParam response, NewUserMessage toolResults]))"
proof -
  obtain st1 response w where rd: "readTurn a st = Continue st1"
    and cl: "client a (messages st1) tps (ext (world st1)) = (Inr response, w)"
    using iteration_Continue_inv [OF assms] by metis
  obtain pre where pre: "calls (world st1) = calls (world st) @ pre"
    and pre_tool: "\<forall>e\<in>set pre. \<not> isToolCall e"
    and pre_msgs: "messages st1 = messages st @ appendedTurns pre"
    using readTurn_Continue [OF rd] by (cases "takeInput st") auto
  let ?before = "pre @ [InferCall (messages st1) tps]"
  have before_tool: "\<forall>e\<in>set ?before. \<not> isToolCall e"
    using pre_tool by simp
  have before_msgs: "messages st @ appendedTurns ?before = messages st1"
    using pre_msgs by (simp add: appendedTurns_append)
  show thesis
  proof (cases "requests response = []")
    case True
    note it = iteration_without_tools [OF rd cl True, of sch]
    obtain first others err w' where
      st': "st' = \<lparr>takeInput = True, messages = messages st1 @ [ToParam response],
                        world = \<lparr>ext = w', calls = calls (world st1)
                          @ [InferCall (messages st1) tps, Appended (ToParam response),
                             WriteOutputCall (Text first)]\<rparr>\<rparr>"
      using it assms by (auto split: list.splits option.splits)
    have "newCalls st (Continue st')
            = ?before @ Appended (ToParam response) # [] @ [WriteOutputCall (Text first)]"
      using st' pre by (simp add: newCalls_def)
    then show ?thesis
      using that [of ?before response "[]" "[WriteOutputCall (Text first)]"]
        before_tool before_msgs st' by simp
  next
    case False
    obtain toolResults evs w' where
      it: "iteration a sch tps st =
       Continue \<lparr>takeInput = False,
                 messages = messages st1 @ [ToParam response, NewUserMessage toolResults],
                 world = \<lparr>ext = w',
                          calls = calls (world st1)
                            @ [InferCall (messages st1) tps, Appended (ToParam response)]
                            @ evs @ [Appended (NewUserMessage toolResults)]\<rparr>\<rparr>"
      and tool: "\<forall>e\<in>set evs. isToolCall e"
      and ids: "mset (map ToolUseID toolResults) = mset (map fst (requests response))"
      and res: "\<forall>r\<in>set toolResults. isToolResult r"
      using iteration_with_tools [OF rd cl False, of sch] by metis
    have ne: "toolResults \<noteq> []"
      using ids False by auto
    have st': "st' = \<lparr>takeInput = False,
                 messages = messages st1 @ [ToParam response, NewUserMessage toolResults],
                 world = \<lparr>ext = w',
                          calls = calls (world st1)
                            @ [InferCall (messages st1) tps, Appended (ToParam response)]
                            @ evs @ [Appended (NewUserMessage toolResults)]\<rparr>\<rparr>"
      using it assms by simp
    have "newCalls st (Continue st')
            = ?before @ Appended (ToParam response) # evs @ [Appended (NewUserMessage toolResults)]"
      using st' pre by (simp add: newCalls_def)
    then show ?thesis
      using that [of ?before response evs "[Appended (NewUserMessage toolResults)]"]
        before_tool before_msgs st' tool ne res by auto
  qed
qed

lemma iteration_prefix:
  assumes "iteration a sch tps st = Continue st'"
  shows "prefix (messages st) (messages st')"
  using iteration_Continue_shape [OF assms] by (metis append.assoc prefixI)

lemma iterations_prefix:
  "iterations n a sch tps st0 = Some st \<Longrightarrow> prefix (messages st0) (messages st)"
proof (induction n arbitrary: st0)
  case 0
  then show ?case by simp
next
  case (Suc n)
  then obtain st1 where 1: "iteration a sch tps st0 = Continue st1"
    and 2: "iterations n a sch tps st1 = Some st"
    by (cases "iteration a sch tps st0") auto
  show ?case
    using iteration_prefix [OF 1] Suc.IH [OF 2] by (rule prefix_order.trans)
qed

lemma iterations_RunLoop:
  "iterations k a sch tps st0 = Some st \<Longrightarrow>
     RunLoop (k + n) a sch tps st0 = RunLoop n a sch tps st"
proof (induction k arbitrary: st0)
  case 0
  then show ?case by simp
next
  case (Suc k)
  then obtain st1 where 1: "iteration a sch tps st0 = Continue st1"
    and 2: "iterations k a sch tps st1 = Some st"
    by (cases "iteration a sch tps st0") auto
  show ?case
    using 1 Suc.IH [OF 2] by simp
qed

text \<open>
  C4. The loop reads input again exactly when the iteration before it wrote output. An
  iteration that goes on leaves takeInput set exactly when its last step was the call of
  writeOutput, and cleared exactly when its last step was the append of a turn of one or
  more tool results. The next iteration starts with the call of readInput when takeInput
  is set, and with the call of the model on the transcript as it stands, with no call of
  readInput at all, when takeInput is cleared.
\<close>

theorem takeInput_iff_emitted:
  assumes "iteration a sch tps st = Continue st'"
  shows "(takeInput st' \<longleftrightarrow> (\<exists>text. last (newCalls st (Continue st')) = WriteOutputCall text))
       \<and> (\<not> takeInput st' \<longleftrightarrow>
            (\<exists>toolResults. toolResults \<noteq> [] \<and> (\<forall>r\<in>set toolResults. isToolResult r)
               \<and> last (newCalls st (Continue st')) = Appended (NewUserMessage toolResults)))
       \<and> (\<exists>rest. newCalls st' (iteration a sch tps st')
                    = (if takeInput st' then ReadInputCall else InferCall (messages st') tps) # rest
                 \<and> (\<not> takeInput st' \<longrightarrow> ReadInputCall \<notin> set rest))"
proof -
  obtain before response evs rest where
    new: "newCalls st (Continue st') = before @ Appended (ToParam response) # evs @ rest"
    and shape: "(evs = [] \<and> takeInput st' \<and> (\<exists>text. rest = [WriteOutputCall text])
           \<and> messages st' = (messages st @ appendedTurns before) @ [ToParam response])
       \<or> (\<not> takeInput st' \<and> (\<exists>toolResults. toolResults \<noteq> [] \<and> (\<forall>r\<in>set toolResults. isToolResult r)
             \<and> rest = [Appended (NewUserMessage toolResults)]
             \<and> messages st' = (messages st @ appendedTurns before)
                                 @ [ToParam response, NewUserMessage toolResults]))"
    using iteration_Continue_shape [OF assms] by metis
  from shape have 1: "takeInput st' \<longleftrightarrow> (\<exists>text. last (newCalls st (Continue st')) = WriteOutputCall text)"
    unfolding new by auto
  from shape have 2: "\<not> takeInput st' \<longleftrightarrow>
            (\<exists>toolResults. toolResults \<noteq> [] \<and> (\<forall>r\<in>set toolResults. isToolResult r)
               \<and> last (newCalls st (Continue st')) = Appended (NewUserMessage toolResults))"
    unfolding new by auto
  show ?thesis
    using 1 2 first_call [of st' a sch tps] by blast
qed

theorem takeInput_iff_emitted_witness:
  "iteration exampleAgent exampleSched (toolParams (tools exampleAgent)) (start 0) = Continue afterTools
   \<and> \<not> takeInput afterTools
   \<and> (\<exists>toolResults. toolResults \<noteq> []
         \<and> last (newCalls (start 0) (Continue afterTools)) = Appended (NewUserMessage toolResults))
   \<and> (\<exists>rest. newCalls afterTools
                 (iteration exampleAgent exampleSched (toolParams (tools exampleAgent)) afterTools)
               = InferCall (messages afterTools) (toolParams (tools exampleAgent)) # rest
            \<and> ReadInputCall \<notin> set rest)"
proof -
  have no: "\<not> takeInput afterTools"
    by (simp add: afterTools_def)
  show ?thesis
    using example_first_iteration no takeInput_iff_emitted [OF example_first_iteration]
    by auto
qed

text \<open>
  C6. A failing tool does not end the loop. Take any request of the model's turn that
  names a registered tool. Whenever the tool's function returns an error, ExecuteTool
  returns a failed result with the error's message under the identifier it was given.
  The iteration goes on: it calls ExecuteTool and the tool's function for the request, and
  if the function returned an error there, the failed result with that error's message is
  in the turn of results that the iteration appends to the transcript. It clears
  takeInput, the loop does not return at this iteration, and the next iteration starts
  with the call of the model on the transcript that holds the results.
\<close>

theorem tool_error_is_fed_back:
  assumes "readTurn a st = Continue st1"
    and "client a (messages st1) tps (ext (world st1)) = (Inr response, w)"
    and "(toolID, toolName, toolInput) \<in> set (requests response)"
    and "findTool toolName (tools a) = Some toolDef"
  shows "(\<forall>s e w0. Function toolDef toolInput (ext s) = (Inl e, w0) \<longrightarrow>
            ExecuteTool a toolID toolName toolInput s =
              (ToolResultBlockParam toolID (Error e) True,
               \<lparr>ext = w0, calls = calls s @ [ExecuteToolCall toolID toolName toolInput,
                                            FunctionCall toolName toolInput (Inl e)]\<rparr>))
       \<and> (\<exists>st' toolResults w1 before after.
             iteration a sch tps st = Continue st'
           \<and> \<not> takeInput st'
           \<and> messages st' = messages st1 @ [ToParam response, NewUserMessage toolResults]
           \<and> newCalls st (Continue st') =
               before @ ExecuteToolCall toolID toolName toolInput
                 # FunctionCall toolName toolInput (fst (Function toolDef toolInput w1)) # after
           \<and> (\<forall>e. fst (Function toolDef toolInput w1) = Inl e \<longrightarrow>
                 ToolResultBlockParam toolID (Error e) True \<in> set toolResults)
           \<and> (\<forall>n inp e. FunctionCall n inp (Inl e) \<in> set (newCalls st (Continue st')) \<longrightarrow>
                 (\<exists>i. (i, n, inp) \<in> set (requests response)
                      \<and> ToolResultBlockParam i (Error e) True \<in> set toolResults))
           \<and> (\<forall>k. RunLoop (Suc k) a sch tps st = RunLoop k a sch tps st')
           \<and> (\<exists>rest. newCalls st' (iteration a sch tps st') = InferCall (messages st') tps # rest
                 \<and> ReadInputCall \<notin> set rest))"
proof -
  have 1: "\<forall>s e w0. Function toolDef toolInput (ext s) = (Inl e, w0) \<longrightarrow>
            ExecuteTool a toolID toolName toolInput s =
              (ToolResultBlockParam toolID (Error e) True,
               \<lparr>ext = w0, calls = calls s @ [ExecuteToolCall toolID toolName toolInput,
                                            FunctionCall toolName toolInput (Inl e)]\<rparr>)"
    using ExecuteTool_registered [OF assms(4)] by fastforce
  obtain toolResults evs w' s1 before after where
    it: "iteration a sch tps st =
       Continue \<lparr>takeInput = False,
                 messages = messages st1 @ [ToParam response, NewUserMessage toolResults],
                 world = \<lparr>ext = w',
                          calls = calls (world st1)
                            @ [InferCall (messages st1) tps, Appended (ToParam response)]
                            @ evs @ [Appended (NewUserMessage toolResults)]\<rparr>\<rparr>"
      (is "_ = Continue ?st'")
    and aft: "calls (world st1) @ [InferCall (messages st1) tps, Appended (ToParam response)] @ evs
           = calls (snd (ExecuteTool a toolID toolName toolInput s1)) @ after"
    and bef: "calls s1 = calls (world st1) @ [InferCall (messages st1) tps, Appended (ToParam response)] @ before"
    and res: "fst (ExecuteTool a toolID toolName toolInput s1) \<in> set toolResults"
    and failed: "\<forall>n inp err. FunctionCall n inp (Inl err) \<in> set evs \<longrightarrow>
           (\<exists>i. (i, n, inp) \<in> set (requests response)
                \<and> ToolResultBlockParam i (Error err) True \<in> set toolResults)"
    using iteration_runs_each [OF assms(1,2,3), where sch = sch] by metis
  obtain v w0 where f: "Function toolDef toolInput (ext s1) = (v, w0)"
    by (cases "Function toolDef toolInput (ext s1)") auto
  note ex = ExecuteTool_registered [OF assms(4) f, of toolID]
  have evs: "evs = before @ ExecuteToolCall toolID toolName toolInput
                 # FunctionCall toolName toolInput v # after"
    using aft bef ex by simp
  obtain pre where pre: "calls (world st1) = calls (world st) @ pre"
    and pre_not: "\<forall>n inp e. FunctionCall n inp (Inl e) \<notin> set pre"
    using readTurn_Continue [OF assms(1)] by (cases "takeInput st") auto
  have new: "newCalls st (Continue ?st')
               = pre @ [InferCall (messages st1) tps, Appended (ToParam response)]
                   @ evs @ [Appended (NewUserMessage toolResults)]"
    using pre by (simp add: newCalls_def)
  have 2: "newCalls st (Continue ?st') =
               (pre @ [InferCall (messages st1) tps, Appended (ToParam response)] @ before)
                 @ ExecuteToolCall toolID toolName toolInput
                 # FunctionCall toolName toolInput (fst (Function toolDef toolInput (ext s1)))
                 # (after @ [Appended (NewUserMessage toolResults)])"
    using new f unfolding evs by simp
  have 3: "\<forall>e. fst (Function toolDef toolInput (ext s1)) = Inl e \<longrightarrow>
                 ToolResultBlockParam toolID (Error e) True \<in> set toolResults"
    using res ex f by auto
  have 4: "\<forall>n inp e. FunctionCall n inp (Inl e) \<in> set (newCalls st (Continue ?st')) \<longrightarrow>
                 (\<exists>i. (i, n, inp) \<in> set (requests response)
                      \<and> ToolResultBlockParam i (Error e) True \<in> set toolResults)"
    unfolding new using failed pre_not by auto
  have 5: "\<forall>k. RunLoop (Suc k) a sch tps st = RunLoop k a sch tps ?st'"
    using it by simp
  have 6: "\<exists>rest. newCalls ?st' (iteration a sch tps ?st') = InferCall (messages ?st') tps # rest
                 \<and> ReadInputCall \<notin> set rest"
    using first_call [of ?st' a sch tps] by simp
  have "\<exists>st' toolResults w1 before after.
             iteration a sch tps st = Continue st'
           \<and> \<not> takeInput st'
           \<and> messages st' = messages st1 @ [ToParam response, NewUserMessage toolResults]
           \<and> newCalls st (Continue st') =
               before @ ExecuteToolCall toolID toolName toolInput
                 # FunctionCall toolName toolInput (fst (Function toolDef toolInput w1)) # after
           \<and> (\<forall>e. fst (Function toolDef toolInput w1) = Inl e \<longrightarrow>
                 ToolResultBlockParam toolID (Error e) True \<in> set toolResults)
           \<and> (\<forall>n inp e. FunctionCall n inp (Inl e) \<in> set (newCalls st (Continue st')) \<longrightarrow>
                 (\<exists>i. (i, n, inp) \<in> set (requests response)
                      \<and> ToolResultBlockParam i (Error e) True \<in> set toolResults))
           \<and> (\<forall>k. RunLoop (Suc k) a sch tps st = RunLoop k a sch tps st')
           \<and> (\<exists>rest. newCalls st' (iteration a sch tps st') = InferCall (messages st') tps # rest
                 \<and> ReadInputCall \<notin> set rest)"
    apply (rule exI [of _ ?st'])
    apply (rule exI [of _ toolResults])
    apply (rule exI [of _ "ext s1"])
    apply (rule exI [of _ "pre @ [InferCall (messages st1) tps, Appended (ToParam response)] @ before"])
    apply (rule exI [of _ "after @ [Appended (NewUserMessage toolResults)]"])
    using it 2 3 4 5 6 apply simp
    done
  then show ?thesis
    using 1 by blast
qed

lemma example_second_iteration:
  "iteration exampleAgent exampleSched (toolParams (tools exampleAgent)) afterTools = Continue afterAnswer"
  by (simp add: run_defs example_defs afterTools_def afterAnswer_def)

lemma example_one_iteration:
  "iterations (Suc 0) exampleAgent exampleSched (toolParams (tools exampleAgent)) (start 0) = Some afterTools"
  by (simp add: example_first_iteration)

lemma cutOff_one_iteration:
  "iterations (Suc 0) cutOffAgent exampleSched (toolParams (tools cutOffAgent)) (start 0) = Some afterTools"
  by (simp add: cutOff_first_iteration)

lemma example_read_file: "findTool ''read_file'' (tools exampleAgent) = Some readFile"
  by (simp add: exampleAgent_def listFiles_def readFile_def)

lemma example_read_file_fails:
  "Function readFile ''notes.txt'' (ext \<lparr>ext = 0, calls = []\<rparr>) = (Inl (errorString ''no such file''), 1)"
  by (simp add: readFile_def)

lemma example_request: "(''t2'', ''read_file'', ''notes.txt'') \<in> set (requests askBoth)"
  by (simp add: example_requests)

lemma readFile_fails: "fst (Function readFile ''notes.txt'' w1) = Inl (errorString ''no such file'')"
  by (simp add: readFile_def)

theorem tool_error_is_fed_back_witness:
  "readTurn exampleAgent (start 0) = Continue firstTurn
   \<and> client exampleAgent (messages firstTurn) (toolParams (tools exampleAgent))
        (ext (world firstTurn)) = (Inr askBoth, 0)
   \<and> (''t2'', ''read_file'', ''notes.txt'') \<in> set (requests askBoth)
   \<and> findTool ''read_file'' (tools exampleAgent) = Some readFile
   \<and> Function readFile ''notes.txt'' (ext \<lparr>ext = 0, calls = []\<rparr>) = (Inl (errorString ''no such file''), 1)
   \<and> ExecuteTool exampleAgent ''t2'' ''read_file'' ''notes.txt'' \<lparr>ext = 0, calls = []\<rparr> =
       (ToolResultBlockParam ''t2'' ''no such file'' True,
        \<lparr>ext = 1, calls = [ExecuteToolCall ''t2'' ''read_file'' ''notes.txt'',
                           FunctionCall ''read_file'' ''notes.txt'' (Inl (errorString ''no such file''))]\<rparr>)
   \<and> (\<exists>st' toolResults.
         iteration exampleAgent exampleSched (toolParams (tools exampleAgent)) (start 0) = Continue st'
       \<and> \<not> takeInput st'
       \<and> messages st' = messages firstTurn @ [ToParam askBoth, NewUserMessage toolResults]
       \<and> ToolResultBlockParam ''t2'' ''no such file'' True \<in> set toolResults
       \<and> ExecuteToolCall ''t2'' ''read_file'' ''notes.txt'' \<in> set (newCalls (start 0) (Continue st'))
       \<and> FunctionCall ''read_file'' ''notes.txt'' (Inl (errorString ''no such file''))
            \<in> set (newCalls (start 0) (Continue st'))
       \<and> RunLoop (Suc 0) exampleAgent exampleSched (toolParams (tools exampleAgent)) (start 0)
            = RunLoop 0 exampleAgent exampleSched (toolParams (tools exampleAgent)) st')"
proof -
  note fed = tool_error_is_fed_back [OF example_first_read example_first_response
      example_request example_read_file, of exampleSched]
  have one: "ExecuteTool exampleAgent ''t2'' ''read_file'' ''notes.txt'' \<lparr>ext = 0, calls = []\<rparr> =
       (ToolResultBlockParam ''t2'' ''no such file'' True,
        \<lparr>ext = 1, calls = [ExecuteToolCall ''t2'' ''read_file'' ''notes.txt'',
                           FunctionCall ''read_file'' ''notes.txt'' (Inl (errorString ''no such file''))]\<rparr>)"
    using fed example_read_file_fails by fastforce
  from fed obtain st' toolResults w1 before after where
    it: "iteration exampleAgent exampleSched (toolParams (tools exampleAgent)) (start 0) = Continue st'"
    and t: "\<not> takeInput st'"
    and m: "messages st' = messages firstTurn @ [ToParam askBoth, NewUserMessage toolResults]"
    and n: "newCalls (start 0) (Continue st') =
               before @ ExecuteToolCall ''t2'' ''read_file'' ''notes.txt''
                 # FunctionCall ''read_file'' ''notes.txt'' (fst (Function readFile ''notes.txt'' w1)) # after"
    and r: "\<forall>e. fst (Function readFile ''notes.txt'' w1) = Inl e \<longrightarrow>
                 ToolResultBlockParam ''t2'' (Error e) True \<in> set toolResults"
    and l: "\<forall>k. RunLoop (Suc k) exampleAgent exampleSched (toolParams (tools exampleAgent)) (start 0)
                 = RunLoop k exampleAgent exampleSched (toolParams (tools exampleAgent)) st'"
    by blast
  have "ToolResultBlockParam ''t2'' ''no such file'' True \<in> set toolResults"
    using r readFile_fails [of w1] by simp
  moreover have "ExecuteToolCall ''t2'' ''read_file'' ''notes.txt'' \<in> set (newCalls (start 0) (Continue st'))"
    and "FunctionCall ''read_file'' ''notes.txt'' (Inl (errorString ''no such file''))
            \<in> set (newCalls (start 0) (Continue st'))"
    unfolding n using readFile_fails [of w1] by simp_all
  ultimately have "\<exists>st' toolResults.
         iteration exampleAgent exampleSched (toolParams (tools exampleAgent)) (start 0) = Continue st'
       \<and> \<not> takeInput st'
       \<and> messages st' = messages firstTurn @ [ToParam askBoth, NewUserMessage toolResults]
       \<and> ToolResultBlockParam ''t2'' ''no such file'' True \<in> set toolResults
       \<and> ExecuteToolCall ''t2'' ''read_file'' ''notes.txt'' \<in> set (newCalls (start 0) (Continue st'))
       \<and> FunctionCall ''read_file'' ''notes.txt'' (Inl (errorString ''no such file''))
            \<in> set (newCalls (start 0) (Continue st'))
       \<and> RunLoop (Suc 0) exampleAgent exampleSched (toolParams (tools exampleAgent)) (start 0)
            = RunLoop 0 exampleAgent exampleSched (toolParams (tools exampleAgent)) st'"
    using it t m l by blast
  then show ?thesis
    using example_first_read example_first_response example_request example_read_file
      example_read_file_fails one
    by simp
qed

text \<open>
  C7. A failed read and a failed model call end the loop. If, after any number of
  iterations, readInput returns an error, or the model client does, the iteration returns
  the empty string with that error, the failing call is the last step recorded, and Run
  returns that result for every number of further iterations it is allowed.
\<close>

theorem read_or_infer_error_is_fatal:
  assumes "iterations k a sch (toolParams (tools a)) (start w0) = Some st"
  shows "(\<forall>err w. takeInput st \<and> readInput a (ext (world st)) = Some (Inl err, w) \<longrightarrow>
            iteration a sch (toolParams (tools a)) st
              = Return [] err \<lparr>ext = w, calls = calls (world st) @ [ReadInputCall]\<rparr>
          \<and> (\<forall>n. Run (k + Suc n) a sch w0
                 = Some (Return [] err \<lparr>ext = w, calls = calls (world st) @ [ReadInputCall]\<rparr>)))
       \<and> (\<forall>st1 err w. readTurn a st = Continue st1
              \<and> client a (messages st1) (toolParams (tools a)) (ext (world st1)) = (Inl err, w) \<longrightarrow>
            iteration a sch (toolParams (tools a)) st
              = Return [] err \<lparr>ext = w, calls = calls (world st1)
                                 @ [InferCall (messages st1) (toolParams (tools a))]\<rparr>
          \<and> (\<forall>n. Run (k + Suc n) a sch w0
                 = Some (Return [] err \<lparr>ext = w, calls = calls (world st1)
                                 @ [InferCall (messages st1) (toolParams (tools a))]\<rparr>)))"
proof -
  let ?tps = "toolParams (tools a)"
  have stop: "Run (k + Suc n) a sch w0 = Some (Return out err s)"
    if "iteration a sch ?tps st = Return out err s" for out err s n
  proof -
    have "Run (k + Suc n) a sch w0 = RunLoop (Suc n) a sch ?tps st"
      unfolding Run_def by (rule iterations_RunLoop [OF assms])
    also have "\<dots> = Some (Return out err s)"
      using that by simp
    finally show ?thesis .
  qed
  have rd: "\<And>err w. takeInput st \<Longrightarrow> readInput a (ext (world st)) = Some (Inl err, w) \<Longrightarrow>
              iteration a sch ?tps st
                = Return [] err \<lparr>ext = w, calls = calls (world st) @ [ReadInputCall]\<rparr>"
    by (simp add: iteration_def readTurn_def logCall_def)
  show ?thesis
    using rd stop iteration_infer_error [of a st _ ?tps _ _ sch] by blast
qed

theorem read_or_infer_error_is_fatal_witness:
  "iterations 0 deafAgent exampleSched (toolParams (tools deafAgent)) (start 0) = Some (start 0)
   \<and> takeInput (start (0::nat))
   \<and> readInput deafAgent (ext (world (start 0))) = Some (Inl (errorString ''EOF''), 0)
   \<and> Run 3 deafAgent exampleSched 0 = Some (Return [] (errorString ''EOF'') \<lparr>ext = 0, calls = [ReadInputCall]\<rparr>)
   \<and> iterations (Suc 0) cutOffAgent exampleSched (toolParams (tools cutOffAgent)) (start 0) = Some afterTools
   \<and> readTurn cutOffAgent afterTools = Continue afterTools
   \<and> client cutOffAgent (messages afterTools) (toolParams (tools cutOffAgent)) (ext (world afterTools))
        = (Inl (errorString ''overloaded''), 2)
   \<and> Run 5 cutOffAgent exampleSched 0
        = Some (Return [] (errorString ''overloaded'')
            \<lparr>ext = 2, calls = calls (world afterTools)
               @ [InferCall (messages afterTools) (toolParams (tools cutOffAgent))]\<rparr>)"
proof -
  have d0: "iterations 0 deafAgent exampleSched (toolParams (tools deafAgent)) (start 0) = Some (start 0)"
    by simp
  have d1: "takeInput (start (0::nat))"
    by (simp add: start_def)
  have d2: "readInput deafAgent (ext (world (start 0))) = Some (Inl (errorString ''EOF''), 0)"
    by (simp add: deafAgent_def start_def)
  have d3: "Run 3 deafAgent exampleSched 0
              = Some (Return [] (errorString ''EOF'') \<lparr>ext = 0, calls = [ReadInputCall]\<rparr>)"
    using read_or_infer_error_is_fatal [OF d0] d1 d2
    by (metis (no_types, lifting) add_0 numeral_3_eq_3 append_Nil start_def sys.select_convs(2) loop.select_convs(3))
  have c1: "readTurn cutOffAgent afterTools = Continue afterTools"
    by (simp add: readTurn_def afterTools_def)
  have c2: "client cutOffAgent (messages afterTools) (toolParams (tools cutOffAgent)) (ext (world afterTools))
        = (Inl (errorString ''overloaded''), 2)"
    by (simp add: cutOffAgent_def afterTools_def)
  have c3: "Run (Suc 0 + Suc 3) cutOffAgent exampleSched 0
        = Some (Return [] (errorString ''overloaded'')
            \<lparr>ext = 2, calls = calls (world afterTools)
               @ [InferCall (messages afterTools) (toolParams (tools cutOffAgent))]\<rparr>)"
    using read_or_infer_error_is_fatal [OF cutOff_one_iteration] c1 c2 by blast
  show ?thesis
    using d0 d1 d2 d3 cutOff_one_iteration c1 c2 c3 by simp
qed

text \<open>
  C8. The transcript only grows: after any number of iterations the earlier transcript is
  a prefix of the later one, and what an iteration adds are the turns it is recorded to
  append. In an iteration that goes on, no step of tool execution comes before the append
  of the model's turn, and either the output is written with no tool step at all, or the
  turn of tool results is appended last and stands right after the model's turn.
\<close>

theorem transcript_append_only:
  assumes "iterations n a sch tps st0 = Some st"
    and "iteration a sch tps st = Continue st'"
  shows "prefix (messages st0) (messages st) \<and> prefix (messages st) (messages st')
       \<and> messages st' = messages st @ appendedTurns (newCalls st (Continue st'))
       \<and> (\<exists>before response evs rest.
            newCalls st (Continue st') = before @ Appended (ToParam response) # evs @ rest
          \<and> (\<forall>e\<in>set before. \<not> isToolCall e) \<and> (\<forall>e\<in>set evs. isToolCall e)
          \<and> ((evs = [] \<and> (\<exists>text. rest = [WriteOutputCall text])
                \<and> messages st' = (messages st @ appendedTurns before) @ [ToParam response])
             \<or> (\<exists>toolResults. toolResults \<noteq> [] \<and> (\<forall>r\<in>set toolResults. isToolResult r)
                  \<and> rest = [Appended (NewUserMessage toolResults)]
                  \<and> messages st' = (messages st @ appendedTurns before)
                                      @ [ToParam response, NewUserMessage toolResults])))"
proof -
  obtain before response evs rest where
    new: "newCalls st (Continue st') = before @ Appended (ToParam response) # evs @ rest"
    and before: "\<forall>e\<in>set before. \<not> isToolCall e"
    and evs: "\<forall>e\<in>set evs. isToolCall e"
    and shape: "(evs = [] \<and> takeInput st' \<and> (\<exists>text. rest = [WriteOutputCall text])
           \<and> messages st' = (messages st @ appendedTurns before) @ [ToParam response])
       \<or> (\<not> takeInput st' \<and> (\<exists>toolResults. toolResults \<noteq> [] \<and> (\<forall>r\<in>set toolResults. isToolResult r)
             \<and> rest = [Appended (NewUserMessage toolResults)]
             \<and> messages st' = (messages st @ appendedTurns before)
                                 @ [ToParam response, NewUserMessage toolResults]))"
    using iteration_Continue_shape [OF assms(2)] by metis
  have grown: "messages st' = messages st @ appendedTurns (newCalls st (Continue st'))"
    unfolding new using shape evs
    by (auto simp: appendedTurns_append appendedTurns_tools)
  have "\<exists>before response evs rest.
            newCalls st (Continue st') = before @ Appended (ToParam response) # evs @ rest
          \<and> (\<forall>e\<in>set before. \<not> isToolCall e) \<and> (\<forall>e\<in>set evs. isToolCall e)
          \<and> ((evs = [] \<and> (\<exists>text. rest = [WriteOutputCall text])
                \<and> messages st' = (messages st @ appendedTurns before) @ [ToParam response])
             \<or> (\<exists>toolResults. toolResults \<noteq> [] \<and> (\<forall>r\<in>set toolResults. isToolResult r)
                  \<and> rest = [Appended (NewUserMessage toolResults)]
                  \<and> messages st' = (messages st @ appendedTurns before)
                                      @ [ToParam response, NewUserMessage toolResults]))"
    using new before evs shape by blast
  then show ?thesis
    using iterations_prefix [OF assms(1)] iteration_prefix [OF assms(2)] grown by blast
qed

theorem transcript_append_only_witness:
  "iterations (Suc 0) exampleAgent exampleSched (toolParams (tools exampleAgent)) (start 0) = Some afterTools
   \<and> iteration exampleAgent exampleSched (toolParams (tools exampleAgent)) afterTools = Continue afterAnswer
   \<and> prefix (messages (start (0::nat))) (messages afterTools)
   \<and> prefix (messages afterTools) (messages afterAnswer)
   \<and> messages afterAnswer = messages afterTools @ appendedTurns (newCalls afterTools (Continue afterAnswer))"
  using example_one_iteration example_second_iteration
    transcript_append_only [OF example_one_iteration example_second_iteration]
  by simp

section \<open>The claim about the network transport\<close>

text \<open>
  The three channels of a new agent have capacity one, and no send or receive lets a
  channel hold more than its capacity.
\<close>

lemma NewAgent_channels:
  "cap (requestChan (snd (NewAgent cl tls rd wr nm prt net))) = 1
   \<and> cap (responseChan (snd (NewAgent cl tls rd wr nm prt net))) = 1
   \<and> cap (doneChan (snd (NewAgent cl tls rd wr nm prt net))) = 1
   \<and> buf (requestChan (snd (NewAgent cl tls rd wr nm prt net))) = []
   \<and> buf (responseChan (snd (NewAgent cl tls rd wr nm prt net))) = []
   \<and> buf (doneChan (snd (NewAgent cl tls rd wr nm prt net))) = []"
  by (simp add: NewAgent_def makeChan_def)

lemma send_bounded:
  "send x c = Some c' \<Longrightarrow> cap c' = cap c \<and> length (buf c') \<le> cap c'"
  by (auto simp: send_def split: if_splits)

lemma recv_bounded:
  "recv c = Some (x, c') \<Longrightarrow> length (buf c) \<le> cap c \<Longrightarrow> cap c' = cap c \<and> length (buf c') \<le> cap c'"
  by (auto simp: recv_def split: list.splits)

text \<open>
  What the two sends of a handler leave in the channels of a new agent.
\<close>

lemma handler_sends:
  "send (Request ''POST'' (Inr ''list files in .'')) (requestChan coderNet) = Some (requestChan (arrived h))
   \<and> send h (responseChan coderNet) = Some (responseChan (arrived h))"
  by (simp add: net_defs)


lemma writeToNetwork_enabled:
  assumes "buf (responseChan net) = h # queued"
    and "length (buf (doneChan net)) < cap (doneChan net)"
  shows "writeToNetwork message net =
           Some (fst (Write message (WriteHeader StatusOK (HeaderSet ''Content-Type'' ''text/plain'' (writers net h)))),
                 net\<lparr>responseChan := (responseChan net)\<lparr>buf := queued\<rparr>,
                     doneChan := (doneChan net)\<lparr>buf := buf (doneChan net) @ [True]\<rparr>,
                     writers := (writers net)
                       (h := snd (Write message (WriteHeader StatusOK
                                   (HeaderSet ''Content-Type'' ''text/plain'' (writers net h)))))\<rparr>)"
  using assms by (simp add: writeToNetwork_def recv_def send_def split: prod.splits)

lemma Write_result:
  "fst (Write message (WriteHeader StatusOK (HeaderSet k v w))) = WriteErr w"
  "WriteErr w = None \<Longrightarrow> Status w = None \<Longrightarrow> Written w = [] \<Longrightarrow>
     Status (snd (Write message (WriteHeader StatusOK (HeaderSet k v w)))) = Some StatusOK
     \<and> Written (snd (Write message (WriteHeader StatusOK (HeaderSet k v w)))) = message"
  by (simp_all add: Write_def WriteHeader_def HeaderSet_def split: option.splits)

lemma coder_read: "readTurn coder (start (arrived h)) = Continue (coderRead h)"
  by (simp add: net_defs run_defs coderRead_def)

lemma coder_infer:
  "client coder (messages (coderRead h)) [] (ext (world (coderRead h))) = (Inr answer, taken h)"
  by (simp add: net_defs coderRead_def)

lemma answer_content: "Content answer = textSegment ''Done.'' # [textSegment ''Bye.'']"
  by (simp add: answer_def)

lemma taken_channels:
  "buf (responseChan (taken h)) = h # []"
  "length (buf (doneChan (taken h))) < cap (doneChan (taken h))"
  "buf (doneChan (taken h)) = []"
  "cap (doneChan (taken h)) = 1"
  by (simp_all add: net_defs)

lemma taken_writers:
  "Status (writers (taken h) h) = None"
  "Written (writers (taken h) h) = []"
  "WriteErr (writers (taken h) 7) = Some (errorString ''broken pipe'')"
  "WriteErr (writers (taken h) 8) = None"
  by (simp_all add: net_defs)

text \<open>
  C5. On the network transport, a turn without tool requests ends in one call of
  \<^verbatim>\<open>writeToNetwork\<close> with the text of the first segment. Provided that a handler has left
  the handle of a fresh response writer and that the completion channel has room, the
  call puts exactly one signal on the completion channel and takes the handle, whether
  the write fails or not; what it returns is the outcome of the write. When the write
  succeeds the writer holds status 200 and the text as its whole body. The loop drops
  the outcome: the iteration goes on with \<^verbatim>\<open>takeInput\<close> set, and the next thing it does is
  read input.
\<close>

theorem write_failure_still_signals:
  assumes "writeOutput a = writeToNetwork"
    and "readTurn a st = Continue st1"
    and "client a (messages st1) tps (ext (world st1)) = (Inr response, net)"
    and "requests response = []"
    and "Content response = first # others"
    and "buf (responseChan net) = h # queued"
    and "length (buf (doneChan net)) < cap (doneChan net)"
    and "Status (writers net h) = None" and "Written (writers net h) = []"
  shows "\<exists>net' st'.
       writeToNetwork (Text first) net = Some (WriteErr (writers net h), net')
     \<and> buf (doneChan net') = buf (doneChan net) @ [True]
     \<and> buf (responseChan net') = queued
     \<and> (WriteErr (writers net h) = None \<longrightarrow>
          Status (writers net' h) = Some StatusOK \<and> Written (writers net' h) = Text first)
     \<and> iteration a sch tps st = Continue st' \<and> takeInput st' \<and> ext (world st') = net'
     \<and> calls (world st') = calls (world st1)
          @ [InferCall (messages st1) tps, Appended (ToParam response), WriteOutputCall (Text first)]
     \<and> (\<exists>rest. newCalls st' (iteration a sch tps st') = ReadInputCall # rest)"
proof -
  let ?w = "Write (Text first) (WriteHeader StatusOK (HeaderSet ''Content-Type'' ''text/plain'' (writers net h)))"
  let ?net' = "net\<lparr>responseChan := (responseChan net)\<lparr>buf := queued\<rparr>,
                     doneChan := (doneChan net)\<lparr>buf := buf (doneChan net) @ [True]\<rparr>,
                     writers := (writers net)(h := snd ?w)\<rparr>"
  let ?st' = "\<lparr>takeInput = True, messages = messages st1 @ [ToParam response],
               world = \<lparr>ext = ?net', calls = calls (world st1)
                 @ [InferCall (messages st1) tps, Appended (ToParam response),
                    WriteOutputCall (Text first)]\<rparr>\<rparr>"
  have wr: "writeToNetwork (Text first) net = Some (WriteErr (writers net h), ?net')"
    using writeToNetwork_enabled [OF assms(6,7), of "Text first"] by (simp add: Write_result(1))
  have it: "iteration a sch tps st = Continue ?st'"
    using iteration_without_tools [OF assms(2,3,4), of sch] assms(1,5) wr by simp
  have ok: "WriteErr (writers net h) = None \<longrightarrow>
          Status (writers ?net' h) = Some StatusOK \<and> Written (writers ?net' h) = Text first"
    using Write_result(2) [OF _ assms(8,9)] by simp
  have nxt: "\<exists>rest. newCalls ?st' (iteration a sch tps ?st') = ReadInputCall # rest"
    using first_call [of ?st' a sch tps] by auto
  show ?thesis
    using wr it ok nxt by (intro exI [of _ ?net'] exI [of _ ?st']) simp
qed

theorem write_failure_still_signals_witness:
  "writeOutput coder = writeToNetwork
   \<and> WriteErr (writers (taken 7) 7) = Some (errorString ''broken pipe'')
   \<and> WriteErr (writers (taken 8) 8) = None
   \<and> (\<exists>net' st'.
        writeToNetwork ''Done.'' (taken 7) = Some (Some (errorString ''broken pipe''), net')
        \<and> buf (doneChan net') = [True]
        \<and> buf (responseChan net') = []
        \<and> iteration coder coderSched [] (start (arrived 7)) = Continue st'
        \<and> takeInput st' \<and> ext (world st') = net'
        \<and> calls (world st') =
            [ReadInputCall, Appended (NewUserMessage [NewTextBlock ''list files in .'']),
             InferCall [NewUserMessage [NewTextBlock ''list files in .'']] [],
             Appended (ToParam answer), WriteOutputCall ''Done.''])
   \<and> (\<exists>net' st'.
        writeToNetwork ''Done.'' (taken 8) = Some (None, net')
        \<and> buf (doneChan net') = [True]
        \<and> Status (writers net' 8) = Some 200
        \<and> Written (writers net' 8) = ''Done.''
        \<and> iteration coder coderSched [] (start (arrived 8)) = Continue st'
        \<and> takeInput st' \<and> ext (world st') = net')"
proof -
  have a1: "writeOutput coder = writeToNetwork"
    by (simp add: net_defs)
  have a4: "requests answer = []"
    by (simp add: requests_def example_defs run_defs)
  have broken: "\<exists>net' st'.
        writeToNetwork ''Done.'' (taken 7) = Some (Some (errorString ''broken pipe''), net')
        \<and> buf (doneChan net') = [True]
        \<and> buf (responseChan net') = []
        \<and> iteration coder coderSched [] (start (arrived 7)) = Continue st'
        \<and> takeInput st' \<and> ext (world st') = net'
        \<and> calls (world st') =
            [ReadInputCall, Appended (NewUserMessage [NewTextBlock ''list files in .'']),
             InferCall [NewUserMessage [NewTextBlock ''list files in .'']] [],
             Appended (ToParam answer), WriteOutputCall ''Done.'']"
    using write_failure_still_signals [OF a1 coder_read coder_infer a4 answer_content
        taken_channels(1,2) taken_writers(1,2), of 7 coderSched]
      taken_writers(3) [of 7] taken_channels(3) [of 7]
    by (auto simp: textSegment_def coderRead_def)
  have sound: "\<exists>net' st'.
        writeToNetwork ''Done.'' (taken 8) = Some (None, net')
        \<and> buf (doneChan net') = [True]
        \<and> Status (writers net' 8) = Some 200
        \<and> Written (writers net' 8) = ''Done.''
        \<and> iteration coder coderSched [] (start (arrived 8)) = Continue st'
        \<and> takeInput st' \<and> ext (world st') = net'"
    using write_failure_still_signals [OF a1 coder_read coder_infer a4 answer_content
        taken_channels(1,2) taken_writers(1,2), of 8 coderSched]
      taken_writers(4) [of 8] taken_channels(3) [of 8]
    by (auto simp: textSegment_def StatusOK_def)
  show ?thesis
    using a1 taken_writers(3) [of 7] taken_writers(4) [of 8] broken sound by simp
qed

end
